theory Spec2Isabelle
  imports Complex_Main "HOL-Library.List_Lexorder" "HOL-Library.Product_Lexorder"
    "HOL-Library.Sublist" "HOL-Library.Multiset"
begin

section \<open>Python strings and errors\<close>

text \<open>
  A Python \<open>str\<close> is a sequence of Unicode code points. The candidates' internal alphabet
  contains the filler vowel U+0259, which is no 8-bit character, so a string is modelled as
  the list of its code points. ASCII literals are written \<open>U ''abc''\<close>.
  Strings are compared as Python compares them, lexicographically by code point
  (the order of \<open>HOL-Library.List_Lexorder\<close>).
\<close>

type_synonym ustr = "nat list"

abbreviation (input) U :: "string \<Rightarrow> ustr" where
  "U s \<equiv> map of_char s"

definition schwa :: nat where
  "schwa = 601"

datatype py_error = ZeroDivisionError | IndexError | KeyError | ValueError | TypeError

definition startswith :: "ustr \<Rightarrow> ustr \<Rightarrow> bool" where
  "startswith s p = (take (length p) s = p)"

definition endswith :: "ustr \<Rightarrow> ustr \<Rightarrow> bool" where
  "endswith s p = (length p \<le> length s \<and> drop (length s - length p) s = p)"

text \<open>\<open>s.replace(old, new)\<close>: every non-overlapping occurrence, from the left.\<close>

function replace :: "ustr \<Rightarrow> ustr \<Rightarrow> ustr \<Rightarrow> ustr" where
  "replace old new [] = (if old = [] then new else [])"
| "replace old new (c # cs) =
     (if old = [] then new @ c # replace old new cs
      else if startswith (c # cs) old then new @ replace old new (drop (length old) (c # cs))
      else c # replace old new cs)"
  by pat_completeness auto
termination
  by (relation "measure (\<lambda>(old, new, s). length s)") auto

section \<open>The phonological alphabet (buildutil.py)\<close>

definition INITIAL_NON_SEMIVOWELS :: ustr where
  "INITIAL_NON_SEMIVOWELS = U ''bCdfghjklmnprsStvz''"

definition SEMIVOWELS :: ustr where
  "SEMIVOWELS = U ''wy''"

definition INITIAL_CONSONANTS :: ustr where
  "INITIAL_CONSONANTS = INITIAL_NON_SEMIVOWELS @ SEMIVOWELS"

definition ALL_CONSONANTS :: ustr where
  "ALL_CONSONANTS = INITIAL_CONSONANTS @ U ''N''"

definition ALL_CONSONANTS_SET :: "nat set" where
  "ALL_CONSONANTS_SET = set ALL_CONSONANTS"

section \<open>Pairwise distance (buildvoc.py, calc\_distance)\<close>

text \<open>
  \<open>editdistance.eval\<close> is the third-party library's Levenshtein distance: the least number
  of insertions, deletions and substitutions of single characters.
\<close>

fun editdistance_eval :: "ustr \<Rightarrow> ustr \<Rightarrow> nat" where
  "editdistance_eval [] ys = length ys"
| "editdistance_eval (x # xs) [] = Suc (length xs)"
| "editdistance_eval (x # xs) (y # ys) =
     min (Suc (editdistance_eval xs (y # ys)))
       (min (Suc (editdistance_eval (x # xs) ys))
            ((if x = y then 0 else 1) + editdistance_eval xs ys))"

text \<open>
  \<open>calc_distance\<close> calls itself on the words without a shared outer filler vowel and on
  the swapped pair; the division \<open>edist / max(len(word), len(other_word))\<close> raises
  \<open>ZeroDivisionError\<close> when both words are empty. The quotient is compared with 0.5 as a
  rational number: both are exactly representable comparisons for any word length below
  \<open>2 ^ 53\<close>. The \<open>lru_cache\<close> only memoises this pure function.
\<close>

function calc_distance :: "ustr \<Rightarrow> ustr \<Rightarrow> py_error + (nat \<times> bool)" where
  "calc_distance word other_word =
     (if startswith word [schwa] \<and> startswith other_word [schwa]
      then calc_distance (drop 1 word) (drop 1 other_word)
      else if endswith word [schwa] \<and> endswith other_word [schwa]
      then calc_distance (butlast word) (butlast other_word)
      else if word > other_word
      then calc_distance other_word word
      else
        let edist = editdistance_eval word other_word in
        if max (length word) (length other_word) = 0 then Inl ZeroDivisionError
        else
          let related =
                ((of_nat edist :: rat) / of_nat (max (length word) (length other_word)) \<le> 1 / 2);
              related =
                (if \<not> related
                 then
                   let (shorter, longer) =
                         (if length word < length other_word then (word, other_word)
                          else (other_word, word))
                   in length shorter \<ge> 2 \<and> (startswith longer shorter \<or> endswith longer shorter)
                 else related);
              related =
                (if related
                 then
                   let word_consonants = set (replace (U ''N'') (U ''n'') word) \<inter> ALL_CONSONANTS_SET;
                       other_word_consonants =
                         set (replace (U ''N'') (U ''n'') other_word) \<inter> ALL_CONSONANTS_SET
                   in if word_consonants \<noteq> {} \<and> other_word_consonants \<noteq> {}
                      then word_consonants \<inter> other_word_consonants \<noteq> {}
                      else related
                 else related)
          in Inr (edist, related))"
  by pat_completeness auto
termination
proof (relation "measures [\<lambda>(w, v). length w + length v, \<lambda>(w, v). if w > v then 1 else 0]")
  show "wf (measures [\<lambda>(w, v). length w + length v, \<lambda>(w, v :: ustr). if w > v then 1 else (0::nat)])"
    by simp
next
  fix word other_word :: ustr
  assume "startswith word [schwa] \<and> startswith other_word [schwa]"
  then have "word \<noteq> []" "other_word \<noteq> []"
    by (auto simp: startswith_def)
  then show "((drop 1 word, drop 1 other_word), (word, other_word))
      \<in> measures [\<lambda>(w, v). length w + length v, \<lambda>(w, v). if w > v then 1 else 0]"
    by (cases word; cases other_word) simp_all
next
  fix word other_word :: ustr
  assume "endswith word [schwa] \<and> endswith other_word [schwa]"
  then have "word \<noteq> []" "other_word \<noteq> []"
    by (auto simp: endswith_def)
  then show "((butlast word, butlast other_word), (word, other_word))
      \<in> measures [\<lambda>(w, v). length w + length v, \<lambda>(w, v). if w > v then 1 else 0]"
    by (cases word rule: rev_cases; cases other_word rule: rev_cases) simp_all
next
  fix word other_word :: ustr
  assume "other_word < word"
  then show "((other_word, word), (word, other_word))
      \<in> measures [\<lambda>(w, v). length w + length v, \<lambda>(w, v). if w > v then 1 else 0]"
    by (auto simp: not_less_iff_gr_or_eq)
qed

text \<open>
  The relatedness criterion in the words of the specification. \<open>strip_shared_fillers\<close> removes
  a filler vowel that both words share at the start, then one that both share at the end, for as
  long as there is one. On the stripped words, \<open>related_words\<close> holds when the edit distance
  divided by the length of the longer word is at most 0.5, or the shorter word has at least two
  letters and is a prefix or a suffix of the longer one; and, when both words contain a consonant,
  they share one, the velar nasal \<open>N\<close> counting as \<open>n\<close>.
\<close>

function strip_shared_fillers :: "ustr \<Rightarrow> ustr \<Rightarrow> ustr \<times> ustr" where
  "strip_shared_fillers a b =
     (if a \<noteq> [] \<and> b \<noteq> [] \<and> hd a = schwa \<and> hd b = schwa
      then strip_shared_fillers (tl a) (tl b)
      else if a \<noteq> [] \<and> b \<noteq> [] \<and> last a = schwa \<and> last b = schwa
      then strip_shared_fillers (butlast a) (butlast b)
      else (a, b))"
  by pat_completeness auto
termination
  by (relation "measure (\<lambda>(a, b). length a)") auto

definition consonants_of :: "ustr \<Rightarrow> nat set" where
  "consonants_of w = set (map (\<lambda>c. if c = of_char CHR ''N'' then of_char CHR ''n'' else c) w) \<inter> set ALL_CONSONANTS"

definition related_words :: "ustr \<Rightarrow> ustr \<Rightarrow> bool" where
  "related_words a b =
     (let (shorter, longer) = (if length a \<le> length b then (a, b) else (b, a))
      in ((of_nat (editdistance_eval a b) :: rat) / of_nat (max (length a) (length b)) \<le> 1 / 2
            \<or> 2 \<le> length shorter \<and> (prefix shorter longer \<or> suffix shorter longer))
         \<and> (consonants_of a \<noteq> {} \<and> consonants_of b \<noteq> {}
              \<longrightarrow> consonants_of a \<inter> consonants_of b \<noteq> {}))"

definition is_related :: "ustr \<Rightarrow> ustr \<Rightarrow> bool" where
  "is_related a b = (case strip_shared_fillers a b of (a', b') \<Rightarrow> related_words a' b')"

text \<open>What \<open>calc_distance\<close> computes, without the recursion.\<close>

definition distance_spec :: "ustr \<Rightarrow> ustr \<Rightarrow> py_error + (nat \<times> bool)" where
  "distance_spec a b =
     (case strip_shared_fillers a b of (a', b') \<Rightarrow>
        if a' = [] \<and> b' = [] then Inl ZeroDivisionError
        else Inr (editdistance_eval a' b', related_words a' b'))"


section \<open>Properties of the pairwise distance\<close>

lemma startswith_prefix: "startswith s p \<longleftrightarrow> prefix p s"
  unfolding startswith_def prefix_def
  by (metis append_eq_conv_conj append_take_drop_id)

lemma endswith_suffix: "endswith s p \<longleftrightarrow> suffix p s"
proof
  assume "endswith s p"
  then have "s = take (length s - length p) s @ p"
    unfolding endswith_def by (metis append_take_drop_id)
  then show "suffix p s" unfolding suffix_def by blast
next
  assume "suffix p s"
  then obtain zs where "s = zs @ p" unfolding suffix_def by blast
  then show "endswith s p" unfolding endswith_def by simp
qed

lemma startswith_single: "startswith s [c] \<longleftrightarrow> s \<noteq> [] \<and> hd s = c"
  by (cases s) (auto simp: startswith_def)

lemma endswith_single: "endswith s [c] \<longleftrightarrow> s \<noteq> [] \<and> last s = c"
  by (cases s rule: rev_cases) (auto simp: endswith_def)

lemma editdistance_eval_Nil2 [simp]: "editdistance_eval xs [] = length xs"
  by (cases xs) simp_all

lemma editdistance_eval_sym: "editdistance_eval xs ys = editdistance_eval ys xs"
  by (induction xs ys rule: editdistance_eval.induct) (simp_all add: min.commute min.left_commute)

lemma editdistance_eval_refl [simp]: "editdistance_eval xs xs = 0"
  by (induction xs) simp_all

lemma replace_single: "replace [a] [b] w = map (\<lambda>c. if c = a then b else c) w"
  by (induction w) (simp_all add: startswith_def)

declare strip_shared_fillers.simps [simp del]

lemma strip_shared_fillers_sym:
  "strip_shared_fillers b a = (case strip_shared_fillers a b of (a', b') \<Rightarrow> (b', a'))"
proof (induction a b rule: strip_shared_fillers.induct)
  case (1 a b)
  consider (lead) "a \<noteq> [] \<and> b \<noteq> [] \<and> hd a = schwa \<and> hd b = schwa"
    | (trail) "\<not> (a \<noteq> [] \<and> b \<noteq> [] \<and> hd a = schwa \<and> hd b = schwa)"
        "a \<noteq> [] \<and> b \<noteq> [] \<and> last a = schwa \<and> last b = schwa"
    | (none) "\<not> (a \<noteq> [] \<and> b \<noteq> [] \<and> hd a = schwa \<and> hd b = schwa)"
        "\<not> (a \<noteq> [] \<and> b \<noteq> [] \<and> last a = schwa \<and> last b = schwa)"
    by blast
  then show ?case
  proof cases
    case lead
    then have "strip_shared_fillers b a = strip_shared_fillers (tl b) (tl a)"
      and "strip_shared_fillers a b = strip_shared_fillers (tl a) (tl b)"
      by (simp_all add: strip_shared_fillers.simps [of a b] strip_shared_fillers.simps [of b a])
    with 1(1) lead show ?thesis by simp
  next
    case trail
    then have "strip_shared_fillers b a = strip_shared_fillers (butlast b) (butlast a)"
      and "strip_shared_fillers a b = strip_shared_fillers (butlast a) (butlast b)"
      using strip_shared_fillers.simps [of a b] strip_shared_fillers.simps [of b a] by metis+
    with 1(2) trail show ?thesis by simp
  next
    case none
    then have "strip_shared_fillers b a = (b, a)" and "strip_shared_fillers a b = (a, b)"
      using strip_shared_fillers.simps [of a b] strip_shared_fillers.simps [of b a] by metis+
    then show ?thesis by simp
  qed
qed

declare calc_distance.simps [simp del]

lemma same_length_prefix: "length a = length b \<Longrightarrow> prefix a b \<longleftrightarrow> a = b"
  by (auto simp: prefix_def)

lemma same_length_suffix: "length a = length b \<Longrightarrow> suffix a b \<longleftrightarrow> a = b"
  by (auto simp: suffix_def)

lemma related_words_sym: "related_words a b = related_words b a"
proof -
  have "length a < length b \<or> length b < length a \<or> length a = length b" by arith
  then show ?thesis
    unfolding related_words_def
    by (auto simp: editdistance_eval_sym [of a b] max.commute same_length_prefix same_length_suffix Int_commute)
qed

lemma related_chain:
  "(if (if \<not> R then P else R) then (if C then S else (if \<not> R then P else R))
    else (if \<not> R then P else R)) = ((R \<or> P) \<and> (C \<longrightarrow> S))"
  by (cases R; cases P; cases C; cases S; simp)

lemma shorter_longer:
  "(case (if length a < length b then (a, b) else (b, a)) of
      (shorter, longer) \<Rightarrow> 2 \<le> length shorter \<and> (prefix shorter longer \<or> suffix shorter longer))
   = (case (if length a \<le> length b then (a, b) else (b, a)) of
      (shorter, longer) \<Rightarrow> 2 \<le> length shorter \<and> (prefix shorter longer \<or> suffix shorter longer))"
proof -
  consider (lt) "length a < length b" | (gt) "length b < length a" | (eq) "length a = length b"
    by arith
  then show ?thesis
  proof cases
    case lt then show ?thesis by simp
  next
    case gt then show ?thesis by simp
  next
    case eq
    then have "prefix b a \<longleftrightarrow> prefix a b" "suffix b a \<longleftrightarrow> suffix a b"
      by (auto simp: prefix_def suffix_def)
    with eq show ?thesis by simp
  qed
qed

lemma calc_distance_base:
  assumes "\<not> (startswith a [schwa] \<and> startswith b [schwa])"
    and "\<not> (endswith a [schwa] \<and> endswith b [schwa])"
    and "\<not> a > b"
  shows "calc_distance a b =
    (if a = [] \<and> b = [] then Inl ZeroDivisionError
     else Inr (editdistance_eval a b, related_words a b))"
proof -
  have unf: "calc_distance a b =
     (let edist = editdistance_eval a b in
        if max (length a) (length b) = 0 then Inl ZeroDivisionError
        else
          let related =
                ((of_nat edist :: rat) / of_nat (max (length a) (length b)) \<le> 1 / 2);
              related =
                (if \<not> related
                 then
                   let (shorter, longer) =
                         (if length a < length b then (a, b)
                          else (b, a))
                   in length shorter \<ge> 2 \<and> (startswith longer shorter \<or> endswith longer shorter)
                 else related);
              related =
                (if related
                 then
                   let word_consonants = set (replace (U ''N'') (U ''n'') a) \<inter> ALL_CONSONANTS_SET;
                       other_word_consonants =
                         set (replace (U ''N'') (U ''n'') b) \<inter> ALL_CONSONANTS_SET
                   in if word_consonants \<noteq> {} \<and> other_word_consonants \<noteq> {}
                      then word_consonants \<inter> other_word_consonants \<noteq> {}
                      else related
                 else related)
          in Inr (edist, related))"
    using assms by (subst calc_distance.simps) (simp only: if_False)
  have ne: "max (length a) (length b) = 0 \<longleftrightarrow> a = [] \<and> b = []" by auto
  have cons: "set (replace (U ''N'') (U ''n'') w) \<inter> ALL_CONSONANTS_SET = consonants_of w" for w
    by (simp only: consonants_of_def ALL_CONSONANTS_SET_def replace_single list.map)
  show ?thesis
    unfolding unf Let_def cons related_words_def startswith_prefix endswith_suffix ne
      related_chain shorter_longer
    by (cases "length a \<le> length b") simp_all
qed

lemma calc_distance_char: "calc_distance a b = distance_spec a b"
proof (induction a b rule: calc_distance.induct)
  case (1 word other_word)
  let ?lead = "startswith word [schwa] \<and> startswith other_word [schwa]"
  let ?trail = "endswith word [schwa] \<and> endswith other_word [schwa]"
  consider (lead) ?lead | (trail) "\<not> ?lead" ?trail
    | (swap) "\<not> ?lead" "\<not> ?trail" "word > other_word"
    | (base) "\<not> ?lead" "\<not> ?trail" "\<not> word > other_word"
    by blast
  then show ?case
  proof cases
    case lead
    then have "calc_distance word other_word = calc_distance (drop 1 word) (drop 1 other_word)"
      by (subst calc_distance.simps) auto
    moreover have "strip_shared_fillers word other_word = strip_shared_fillers (tl word) (tl other_word)"
      using lead by (subst strip_shared_fillers.simps) (simp add: startswith_single)
    ultimately show ?thesis
      using 1(1) [OF lead] by (simp add: distance_spec_def drop_Suc)
  next
    case trail
    then have "calc_distance word other_word = calc_distance (butlast word) (butlast other_word)"
      by (subst calc_distance.simps) auto
    moreover have "strip_shared_fillers word other_word
        = strip_shared_fillers (butlast word) (butlast other_word)"
      using trail by (subst strip_shared_fillers.simps) (auto simp: startswith_single endswith_single)
    ultimately show ?thesis
      using 1(2) [OF trail] by (simp add: distance_spec_def)
  next
    case swap
    then have c: "calc_distance word other_word = calc_distance other_word word"
      by (subst calc_distance.simps) auto
    have s1: "strip_shared_fillers word other_word = (word, other_word)"
      using swap by (subst strip_shared_fillers.simps) (auto simp: startswith_single endswith_single)
    have s2: "strip_shared_fillers other_word word = (other_word, word)"
      by (subst strip_shared_fillers_sym) (simp add: s1)
    show ?thesis
      unfolding c 1(3) [OF swap] distance_spec_def s1 s2
      by (simp add: editdistance_eval_sym [of word other_word] related_words_sym [of word other_word] conj_commute)
  next
    case base
    have s1: "strip_shared_fillers word other_word = (word, other_word)"
      using base by (subst strip_shared_fillers.simps) (auto simp: startswith_single endswith_single)
    show ?thesis
      unfolding distance_spec_def s1 using calc_distance_base [OF base] by simp
  qed
qed

lemma strip_shared_fillers_Nil_iff:
  "strip_shared_fillers a b = ([], []) \<longleftrightarrow> a = b \<and> set a \<subseteq> {schwa}"
proof (induction a b rule: strip_shared_fillers.induct)
  case (1 a b)
  let ?lead = "a \<noteq> [] \<and> b \<noteq> [] \<and> hd a = schwa \<and> hd b = schwa"
  let ?trail = "a \<noteq> [] \<and> b \<noteq> [] \<and> last a = schwa \<and> last b = schwa"
  consider (lead) ?lead | (trail) "\<not> ?lead" ?trail | (none) "\<not> ?lead" "\<not> ?trail"
    by blast
  then show ?case
  proof cases
    case lead
    then obtain xs ys where ab: "a = schwa # xs" "b = schwa # ys"
      by (cases a; cases b) auto
    have "strip_shared_fillers a b = strip_shared_fillers (tl a) (tl b)"
      using lead by (subst strip_shared_fillers.simps) simp
    with 1(1) [OF lead] show ?thesis by (auto simp: ab)
  next
    case trail
    then obtain xs ys where ab: "a = xs @ [schwa]" "b = ys @ [schwa]"
      by (cases a rule: rev_cases; cases b rule: rev_cases) auto
    have "strip_shared_fillers a b = strip_shared_fillers (butlast a) (butlast b)"
      using trail by (subst strip_shared_fillers.simps) auto
    with 1(2) [OF trail] show ?thesis by (auto simp: ab)
  next
    case none
    have s: "strip_shared_fillers a b = (a, b)"
      using none by (subst strip_shared_fillers.simps) auto
    show ?thesis
    proof
      assume "strip_shared_fillers a b = ([], [])"
      with s show "a = b \<and> set a \<subseteq> {schwa}" by simp
    next
      assume h: "a = b \<and> set a \<subseteq> {schwa}"
      have "a = []"
      proof (rule ccontr)
        assume "a \<noteq> []"
        then have "hd a \<in> set a" by simp
        with h have "hd a = schwa" by auto
        with none(1) h \<open>a \<noteq> []\<close> show False by simp
      qed
      with h s show "strip_shared_fillers a b = ([], [])" by simp
    qed
  qed
qed

lemma strip_shared_fillers_same:
  "a = b \<Longrightarrow> fst (strip_shared_fillers a b) = snd (strip_shared_fillers a b)"
proof (induction a b rule: strip_shared_fillers.induct)
  case (1 a b)
  show ?case
    using 1 by (subst (1 2) strip_shared_fillers.simps) simp
qed

lemma related_words_refl: "related_words a a"
  by (simp add: related_words_def)

lemma calc_distance_self:
  "calc_distance a a = (if set a \<subseteq> {schwa} then Inl ZeroDivisionError else Inr (0, True))"
proof -
  obtain a' b' where s: "strip_shared_fillers a a = (a', b')" by (cases "strip_shared_fillers a a")
  with strip_shared_fillers_same [of a a] have eq: "b' = a'" by simp
  have "a' = [] \<longleftrightarrow> set a \<subseteq> {schwa}"
    using strip_shared_fillers_Nil_iff [of a a] s eq by simp
  then show ?thesis
    by (simp add: calc_distance_char distance_spec_def s eq related_words_refl)
qed

lemma calc_distance_raises_iff:
  "calc_distance a b = Inl e \<longleftrightarrow> e = ZeroDivisionError \<and> a = b \<and> set a \<subseteq> {schwa}"
proof -
  obtain a' b' where s: "strip_shared_fillers a b = (a', b')" by (cases "strip_shared_fillers a b")
  show ?thesis
    using strip_shared_fillers_Nil_iff [of a b]
    by (auto simp: calc_distance_char distance_spec_def s)
qed

lemma calc_distance_sym: "calc_distance a b = calc_distance b a"
proof -
  obtain a' b' where s: "strip_shared_fillers a b = (a', b')" by (cases "strip_shared_fillers a b")
  then have s': "strip_shared_fillers b a = (b', a')"
    by (subst strip_shared_fillers_sym) simp
  show ?thesis
    unfolding calc_distance_char distance_spec_def s s'
    by (simp add: editdistance_eval_sym [of a' b'] related_words_sym [of a' b'] conj_commute)
qed

text \<open>
  C4. For all words \<open>a\<close> and \<open>b\<close>, the boolean that \<open>calc_distance\<close> returns is true
  exactly when, after the shared outer filler vowels are stripped from both words, the edit
  distance divided by the length of the longer word is at most 0.5 or the shorter word has at
  least two letters and is a prefix or suffix of the longer one, and moreover the two words share a
  consonant whenever both contain one (\<open>N\<close> counting as \<open>n\<close>). In particular the words
  \<open>kub\<close> and \<open>sab\<close> followed by the filler vowel are not related.
\<close>

theorem calc_distance_related_iff:
  "(calc_distance a b = Inr (d, r) \<longrightarrow> (r \<longleftrightarrow> is_related a b))
   \<and> calc_distance (U ''kub'' @ [schwa]) (U ''sab'' @ [schwa]) = Inr (2, False)"
proof
  show "calc_distance a b = Inr (d, r) \<longrightarrow> (r \<longleftrightarrow> is_related a b)"
    by (cases "strip_shared_fillers a b")
      (auto simp: calc_distance_char distance_spec_def is_related_def split: if_splits)
  show "calc_distance (U ''kub'' @ [schwa]) (U ''sab'' @ [schwa]) = Inr (2, False)"
    by code_simp
qed

theorem calc_distance_related_iff_witness:
  "calc_distance (U ''kab'') (U ''kub'' @ [schwa]) = Inr (2, True)
   \<and> is_related (U ''kab'') (U ''kub'' @ [schwa])"
proof -
  have e: "calc_distance (U ''kab'') (U ''kub'' @ [schwa]) = Inr (2, True)"
    by code_simp
  with calc_distance_related_iff [of "U ''kab''" "U ''kub'' @ [schwa]" 2 True]
  show ?thesis by blast
qed

text \<open>
  C6. Distance symmetry: for all words \<open>a\<close> and \<open>b\<close>, \<open>calc_distance a b\<close> and
  \<open>calc_distance b a\<close> give the same result, the same pair of edit distance and relatedness
  or the same error.
\<close>

theorem calc_distance_symmetric: "calc_distance a b = calc_distance b a"
  by (rule calc_distance_sym)

text \<open>
  C7. Self-distance. The word of two filler vowels has two letters, yet its distance to itself
  is not \<open>(0, True)\<close>: the stripping leaves two empty words and the division by the length
  of the longer one raises \<open>ZeroDivisionError\<close>. Every word with a letter other than the
  filler vowel does get \<open>(0, True)\<close> (lemma \<open>calc_distance_self\<close>).
\<close>

theorem calc_distance_self_fillers:
  "calc_distance [schwa, schwa] [schwa, schwa] = Inl ZeroDivisionError"
  by code_simp

text \<open>
  C10. \<open>calc_distance\<close> is not total. It raises \<open>ZeroDivisionError\<close> exactly on a pair of
  equal words that consist of filler vowels only (the empty word included), and returns a pair
  on every other input. Two words of filler vowels of different lengths are compared without
  an error.
\<close>

theorem calc_distance_fillers_counterexample:
  "set [schwa, schwa] \<subseteq> {schwa} \<and> set [schwa] \<subseteq> {schwa}
   \<and> calc_distance [schwa, schwa] [schwa] = Inr (1, False)"
  by code_simp

theorem calc_distance_raises:
  "(a = b \<and> set a \<subseteq> {schwa} \<longrightarrow> calc_distance a b = Inl ZeroDivisionError)
   \<and> (\<not> (a = b \<and> set a \<subseteq> {schwa}) \<longrightarrow> (\<exists>d r. calc_distance a b = Inr (d, r)))"
proof -
  have "\<exists>d r. calc_distance a b = Inr (d, r)" if "\<not> (a = b \<and> set a \<subseteq> {schwa})"
  proof (cases "calc_distance a b")
    case (Inl e)
    with that calc_distance_raises_iff [of a b e] show ?thesis by blast
  next
    case (Inr p)
    then show ?thesis by (cases p) simp
  qed
  then show ?thesis
    using calc_distance_raises_iff [of a b ZeroDivisionError] by blast
qed

theorem calc_distance_raises_witness:
  "calc_distance [schwa] [schwa] = Inl ZeroDivisionError
   \<and> (\<exists>d r. calc_distance [schwa, schwa] [schwa] = Inr (d, r))"
  using calc_distance_raises [of "[schwa]" "[schwa]"]
    calc_distance_raises [of "[schwa, schwa]" "[schwa]"]
  by simp

section \<open>Candidates, the object store and the logger\<close>

text \<open>
  A \<open>Candidate\<close> (buildutil.py) is a mutable object: the cache of \<open>VocBuilder\<close>, the
  candidate lists and the \<open>related_cands\<close> of other candidates all refer to the same objects,
  and the repair and the scoring update them in place. Objects therefore live in a store, a map
  from references to candidate values, and lists hold references. The scores are Python floats;
  they are modelled by rational numbers, so rounding is not part of the model.
  \<open>filled\<close> is the class attribute that \<open>insert_filler_vowels\<close> sets on the instance.
\<close>

type_synonym ref = nat

record candidate =
  word :: ustr
  penalty :: int
  lang :: ustr
  original :: ustr
  true_original :: "ustr option"
  auxlangs :: "ustr list"
  raw_psim :: int
  simscore :: rat
  related_cands :: "(ustr \<times> ref list) list"
  filled :: bool

text \<open>The constructor of the dataclass, with the defaults of the fields it does not take.\<close>

definition Candidate :: "ustr \<Rightarrow> int \<Rightarrow> ustr \<Rightarrow> ustr \<Rightarrow> ustr option \<Rightarrow> ustr list \<Rightarrow> candidate" where
  "Candidate w p l orig true_orig aux =
     \<lparr>word = w, penalty = p, lang = l, original = orig, true_original = true_orig,
      auxlangs = aux, raw_psim = - 1, simscore = - 1, related_cands = [], filled = False\<rparr>"

text \<open>
  The store also carries the module's \<open>RecordingLogger\<close>: \<open>info\<close> prints a message and
  records it, \<open>warn\<close> prefixes it with \<open>WARNING: \<close>.
\<close>

record store =
  heap :: "ref \<Rightarrow> candidate"
  next_ref :: ref
  messages :: "ustr list"

definition LOG_info :: "ustr \<Rightarrow> store \<Rightarrow> store" where
  "LOG_info msg st = st\<lparr>messages := messages st @ [msg]\<rparr>"

definition LOG_warn :: "ustr \<Rightarrow> store \<Rightarrow> store" where
  "LOG_warn msg st = LOG_info (U ''WARNING: '' @ msg) st"

text \<open>The fields of \<open>VocBuilder\<close> and of its parsed command line that the engine reads.\<close>

record conversion =
  conv_output :: ustr
  conv_penalty :: bool

record vocbuilder =
  args_word :: bool
  args_schwastrip :: bool
  args_allowduplicates :: bool
  convdicts :: "ustr \<rightharpoonup> (ustr \<rightharpoonup> conversion)"
  maxkeylengths :: "ustr \<rightharpoonup> int"
  vb_auxlangs :: "ustr list"
  candi_cache :: "ustr \<rightharpoonup> ref option"
  existing_norm_words :: "ustr set"



section \<open>Normalised similarity scores (buildvoc.py, store\_normalized\_sim\_penalties)\<close>



text \<open>
  \<open>candidates\<close> is the dictionary from language codes to candidate lists, in insertion
  order. The lists of the language-less candidates of the \<open>--word\<close> option are left out of
  the result and are not scored.
\<close>

definition set_simscore :: "int \<Rightarrow> int \<Rightarrow> ref \<Rightarrow> store \<Rightarrow> store" where
  "set_simscore min_psim diff cand st =
     (if diff \<noteq> 0
      then st\<lparr>heap := (heap st)(cand := (heap st cand)
             \<lparr>simscore := of_int (min_psim - raw_psim (heap st cand)) / of_int diff + 1\<rparr>)\<rparr>
      else st\<lparr>heap := (heap st)(cand := (heap st cand)\<lparr>simscore := 1\<rparr>)\<rparr>)"


text \<open>A batch of three candidates with the raw penalties 3, 5 and 7.\<close>

definition demo_builder :: vocbuilder where
  "demo_builder = \<lparr>args_word = False, args_schwastrip = False, args_allowduplicates = False,
     convdicts = Map.empty, maxkeylengths = Map.empty, vb_auxlangs = [],
     candi_cache = Map.empty, existing_norm_words = {}\<rparr>"

definition demo_store :: store where
  "demo_store = \<lparr>heap = (\<lambda>r. (Candidate (U ''kat'') 0 (U ''en'') (U ''cat'') None [])
                                \<lparr>raw_psim := (if r = 0 then 3 else if r = 1 then 5 else 7)\<rparr>),
     next_ref = 3, messages = []\<rparr>"



section \<open>Properties of the normalised scores\<close>



definition normalised :: "int \<Rightarrow> int \<Rightarrow> candidate \<Rightarrow> candidate" where
  "normalised m d c =
     c\<lparr>simscore := (if d \<noteq> 0 then of_int (m - raw_psim c) / of_int d + 1 else 1)\<rparr>"


lemma normalised_idem [simp]: "normalised m d (normalised m d c) = normalised m d c"
  by (simp add: normalised_def)


lemma fold_set_simscore_messages:
  "messages (fold (set_simscore m d) rs st) = messages st"
  by (induction rs arbitrary: st) (simp_all add: set_simscore_def)




section \<open>Python's string methods and regular expressions\<close>

text \<open>
  What Python decides from the Unicode character database is not part of the repository:
  whether a character is alphanumeric (which \<open>\w\<close> and \<open>\b\<close> of the \<open>re\<close> module use,
  together with the underscore), whether it is alphabetic, whether its Unicode name starts with
  \<open>LATIN\<close>, and what \<open>str.lower\<close> returns. These tables are a parameter of the model.
\<close>

record unicode_db =
  isalnum :: "nat \<Rightarrow> bool"
  isalpha :: "nat \<Rightarrow> bool"
  name_is_latin :: "nat \<Rightarrow> bool"
  lower :: "ustr \<Rightarrow> ustr"

text \<open>
  The tables on ASCII and the filler vowel, for evaluating the model on such words:
  letters and digits are alphanumeric, letters are alphabetic and Latin, and lower-casing maps
  \<open>A\<close>..\<open>Z\<close> to \<open>a\<close>..\<open>z\<close>.
\<close>

definition ascii_db :: unicode_db where
  "ascii_db =
     \<lparr>isalnum = (\<lambda>c. (48 \<le> c \<and> c \<le> 57) \<or> (65 \<le> c \<and> c \<le> 90) \<or> (97 \<le> c \<and> c \<le> 122)
                      \<or> c = 601),
      isalpha = (\<lambda>c. (65 \<le> c \<and> c \<le> 90) \<or> (97 \<le> c \<and> c \<le> 122) \<or> c = 601),
      name_is_latin = (\<lambda>c. (65 \<le> c \<and> c \<le> 90) \<or> (97 \<le> c \<and> c \<le> 122) \<or> c = 601),
      lower = map (\<lambda>c. if 65 \<le> c \<and> c \<le> 90 then c + 32 else c)\<rparr>"

text \<open>
  The characters that \<open>str.split()\<close>, \<open>str.strip()\<close> and \<open>\s\<close> treat as whitespace.
\<close>

definition isspace :: "nat \<Rightarrow> bool" where
  "isspace c = ((9 \<le> c \<and> c \<le> 13) \<or> (28 \<le> c \<and> c \<le> 32) \<or> c = 133 \<or> c = 160 \<or> c = 5760
                \<or> (8192 \<le> c \<and> c \<le> 8202) \<or> c = 8232 \<or> c = 8233 \<or> c = 8239 \<or> c = 8287
                \<or> c = 12288)"

text \<open>\<open>s.split()\<close>: the maximal runs of characters that are not whitespace.\<close>

fun split_ws :: "ustr \<Rightarrow> ustr \<Rightarrow> ustr list" where
  "split_ws cur [] = (if cur = [] then [] else [rev cur])"
| "split_ws cur (c # cs) =
     (if isspace c then (if cur = [] then split_ws [] cs else rev cur # split_ws [] cs)
      else split_ws (c # cur) cs)"

definition split :: "ustr \<Rightarrow> ustr list" where
  "split s = split_ws [] s"

definition strip :: "ustr \<Rightarrow> ustr" where
  "strip s = rev (dropWhile isspace (rev (dropWhile isspace s)))"

text \<open>\<open>sep.join(xs)\<close>.\<close>

fun join :: "ustr \<Rightarrow> ustr list \<Rightarrow> ustr" where
  "join sep [] = []"
| "join sep [x] = x"
| "join sep (x # y # ys) = x @ sep @ join sep (y # ys)"

text \<open>\<open>s.count(sub)\<close> for a non-empty \<open>sub\<close>: the non-overlapping occurrences, from the left.\<close>

function count :: "ustr \<Rightarrow> ustr \<Rightarrow> nat" where
  "count [] sub = 0"
| "count (c # cs) sub =
     (if sub \<noteq> [] \<and> startswith (c # cs) sub then Suc (count (drop (length sub) (c # cs)) sub)
      else count cs sub)"
  by pat_completeness auto
termination
  by (relation "measure (\<lambda>(s, sub). length s)") auto

text \<open>\<open>sub in s\<close> for two strings: \<open>sub\<close> occurs in \<open>s\<close>.\<close>

fun contains :: "ustr \<Rightarrow> ustr \<Rightarrow> bool" where
  "contains [] sub = (sub = [])"
| "contains (c # cs) sub = (startswith (c # cs) sub \<or> contains cs sub)"

text \<open>\<open>s.find(sub)\<close>: the least index at which \<open>sub\<close> occurs, or -1.\<close>

fun find_from :: "nat \<Rightarrow> ustr \<Rightarrow> ustr \<Rightarrow> int" where
  "find_from i [] sub = (if sub = [] then int i else - 1)"
| "find_from i (c # cs) sub = (if startswith (c # cs) sub then int i else find_from (Suc i) cs sub)"

definition find :: "ustr \<Rightarrow> ustr \<Rightarrow> int" where
  "find s sub = find_from 0 s sub"

text \<open>
  Regular expressions, as far as the patterns of the program go: character classes, literals,
  concatenation, alternation, the greedy \<open>?\<close>, \<open>*\<close> and \<open>+\<close> (the latter two on a character
  class), numbered groups and backreferences, \<open>^\<close>, \<open>$\<close>, \<open>\b\<close>, lookahead of a pattern and
  lookbehind of a sequence of classes.
\<close>

datatype cls = In ustr | NotIn ustr | Dot | Space

fun cls_matches :: "cls \<Rightarrow> nat \<Rightarrow> bool" where
  "cls_matches (In s) c = (c \<in> set s)"
| "cls_matches (NotIn s) c = (c \<notin> set s)"
| "cls_matches Dot c = (c \<noteq> 10)"
| "cls_matches Space c = isspace c"

datatype re =
    Chr cls
  | Lit ustr
  | Cat "re list"
  | Alt "re list"
  | Opt re
  | Star cls
  | Plus cls
  | Grp nat re
  | Back nat
  | Bol
  | Eol
  | WordB
  | Ahead re
  | NotAhead re
  | Behind "cls list"
  | NotBehind "cls list"

text \<open>
  A matcher state is the text before the current position (reversed), the text from the
  position on, and the groups captured so far. \<open>re_m\<close> lists the states in which a match of
  the pattern from the given state can end, in the order in which Python's backtracking tries
  them: the first one is the match Python reports.
\<close>

type_synonym mstate = "ustr \<times> ustr \<times> (nat \<times> ustr) list"

fun star_states :: "cls \<Rightarrow> ustr \<Rightarrow> ustr \<Rightarrow> (nat \<times> ustr) list \<Rightarrow> mstate list" where
  "star_states c p [] g = [(p, [], g)]"
| "star_states c p (x # xs) g =
     (if cls_matches c x then star_states c (x # p) xs g @ [(p, x # xs, g)] else [(p, x # xs, g)])"

definition is_word_char :: "unicode_db \<Rightarrow> nat \<Rightarrow> bool" where
  "is_word_char u c = (isalnum u c \<or> c = of_char CHR ''_'')"

fun behind_matches :: "cls list \<Rightarrow> ustr \<Rightarrow> bool" where
  "behind_matches [] p = True"
| "behind_matches (c # cs) [] = False"
| "behind_matches (c # cs) (x # p) = (cls_matches c x \<and> behind_matches cs p)"

fun re_m :: "unicode_db \<Rightarrow> re \<Rightarrow> mstate \<Rightarrow> mstate list"
  and re_cat :: "unicode_db \<Rightarrow> re list \<Rightarrow> mstate \<Rightarrow> mstate list"
  and re_alt :: "unicode_db \<Rightarrow> re list \<Rightarrow> mstate \<Rightarrow> mstate list" where
  "re_m u (Chr c) (p, rest, g) =
     (case rest of [] \<Rightarrow> [] | x # xs \<Rightarrow> if cls_matches c x then [(x # p, xs, g)] else [])"
| "re_m u (Lit l) (p, rest, g) =
     (if startswith rest l then [(rev l @ p, drop (length l) rest, g)] else [])"
| "re_m u (Cat rs) s = re_cat u rs s"
| "re_m u (Alt rs) s = re_alt u rs s"
| "re_m u (Opt r) s = re_m u r s @ [s]"
| "re_m u (Star c) (p, rest, g) = star_states c p rest g"
| "re_m u (Plus c) (p, rest, g) =
     (case rest of [] \<Rightarrow> []
      | x # xs \<Rightarrow> if cls_matches c x then star_states c (x # p) xs g else [])"
| "re_m u (Grp n r) (p, rest, g) =
     map (\<lambda>(p', rest', g'). (p', rest', (n, take (length rest - length rest') rest) # g'))
       (re_m u r (p, rest, g))"
| "re_m u (Back n) (p, rest, g) =
     (case map_of g n of None \<Rightarrow> []
      | Some t \<Rightarrow> if startswith rest t then [(rev t @ p, drop (length t) rest, g)] else [])"
| "re_m u Bol (p, rest, g) = (if p = [] then [(p, rest, g)] else [])"
| "re_m u Eol (p, rest, g) = (if rest = [] \<or> rest = [10] then [(p, rest, g)] else [])"
| "re_m u WordB (p, rest, g) =
     (if (p \<noteq> [] \<and> is_word_char u (hd p)) \<noteq> (rest \<noteq> [] \<and> is_word_char u (hd rest))
      then [(p, rest, g)] else [])"
| "re_m u (Ahead r) s = (if re_m u r s \<noteq> [] then [s] else [])"
| "re_m u (NotAhead r) s = (if re_m u r s = [] then [s] else [])"
| "re_m u (Behind cs) (p, rest, g) = (if behind_matches (rev cs) p then [(p, rest, g)] else [])"
| "re_m u (NotBehind cs) (p, rest, g) = (if behind_matches (rev cs) p then [] else [(p, rest, g)])"
| "re_cat u [] s = [s]"
| "re_cat u (r # rs) s = concat (map (\<lambda>s'. re_cat u rs s') (re_m u r s))"
| "re_alt u [] s = []"
| "re_alt u (r # rs) s = re_m u r s @ re_alt u rs s"

text \<open>
  A match object: the matched text and the groups. A group that took no part in the match
  reads as the empty string, as in a replacement template.
\<close>

type_synonym match = "ustr \<times> (nat \<times> ustr) list"

definition group :: "match \<Rightarrow> nat \<Rightarrow> ustr" where
  "group m n = (if n = 0 then fst m else case map_of (snd m) n of None \<Rightarrow> [] | Some t \<Rightarrow> t)"

text \<open>
  \<open>pattern.subn(repl, s)\<close>: the leftmost match is replaced and the search goes on behind
  it. Every pattern of the program consumes at least one character when it matches; a match
  of the empty string is passed over here.
\<close>

function re_subn_from ::
  "unicode_db \<Rightarrow> re \<Rightarrow> (match \<Rightarrow> ustr) \<Rightarrow> ustr \<Rightarrow> ustr \<Rightarrow> ustr \<times> nat" where
  "re_subn_from u r repl p rest =
     (case (case re_m u r (p, rest, []) of
              [] \<Rightarrow> None
            | (p', rest', g) # _ \<Rightarrow> if length rest' < length rest then Some (p', rest', g) else None) of
        Some (p', rest', g) \<Rightarrow>
          (case re_subn_from u r repl p' rest' of
             (out, n) \<Rightarrow> (repl (take (length rest - length rest') rest, g) @ out, Suc n))
      | None \<Rightarrow>
          (case rest of
             [] \<Rightarrow> ([], 0)
           | c # cs \<Rightarrow> (case re_subn_from u r repl (c # p) cs of (out, n) \<Rightarrow> (c # out, n))))"
  by pat_completeness auto
termination
  by (relation "measure (\<lambda>(u, r, repl, p, rest). length rest)")
    (auto split: list.splits if_splits)

definition re_subn :: "unicode_db \<Rightarrow> re \<Rightarrow> (match \<Rightarrow> ustr) \<Rightarrow> ustr \<Rightarrow> ustr \<times> nat" where
  "re_subn u r repl s = re_subn_from u r repl [] s"

definition re_sub :: "unicode_db \<Rightarrow> re \<Rightarrow> (match \<Rightarrow> ustr) \<Rightarrow> ustr \<Rightarrow> ustr" where
  "re_sub u r repl s = fst (re_subn u r repl s)"

text \<open>\<open>pattern.search(s)\<close>, as a truth value.\<close>

fun re_search_from :: "unicode_db \<Rightarrow> re \<Rightarrow> ustr \<Rightarrow> ustr \<Rightarrow> bool" where
  "re_search_from u r p [] = (re_m u r (p, [], []) \<noteq> [])"
| "re_search_from u r p (c # cs) = (re_m u r (p, c # cs, []) \<noteq> [] \<or> re_search_from u r (c # p) cs)"

definition re_search :: "unicode_db \<Rightarrow> re \<Rightarrow> ustr \<Rightarrow> bool" where
  "re_search u r s = re_search_from u r [] s"

text \<open>\<open>pattern.split(s)\<close> for a pattern without groups.\<close>

function re_split_from :: "unicode_db \<Rightarrow> re \<Rightarrow> ustr \<Rightarrow> ustr \<Rightarrow> ustr \<Rightarrow> ustr list" where
  "re_split_from u r p cur rest =
     (case (case re_m u r (p, rest, []) of
              [] \<Rightarrow> None
            | (p', rest', g) # _ \<Rightarrow> if length rest' < length rest then Some (p', rest') else None) of
        Some (p', rest') \<Rightarrow>
          rev cur # re_split_from u r p' [] rest'
      | None \<Rightarrow>
          (case rest of
             [] \<Rightarrow> [rev cur]
           | c # cs \<Rightarrow> re_split_from u r (c # p) (c # cur) cs))"
  by pat_completeness auto
termination
  by (relation "measure (\<lambda>(u, r, p, cur, rest). length rest)")
    (auto split: list.splits if_splits)

definition re_split :: "unicode_db \<Rightarrow> re \<Rightarrow> ustr \<Rightarrow> ustr list" where
  "re_split u r s = re_split_from u r [] [] s"

section \<open>The syllable patterns (buildutil.py)\<close>

definition ALL_NON_SEMIVOWELS :: ustr where
  "ALL_NON_SEMIVOWELS = INITIAL_NON_SEMIVOWELS @ U ''N''"

definition WORD_FINAL_CONSONANTS :: ustr where
  "WORD_FINAL_CONSONANTS = U ''klmnNprst''"

definition SYLLABLE_FINAL_CONSONANTS :: ustr where
  "SYLLABLE_FINAL_CONSONANTS = WORD_FINAL_CONSONANTS @ U ''bdg''"

definition SECOND_CONSONANTS :: ustr where
  "SECOND_CONSONANTS = U ''lrwy''"

definition NOT_WORD_FINAL_NON_SEMIVOWEL :: ustr where
  "NOT_WORD_FINAL_NON_SEMIVOWEL = U ''CSbdfghjvz''"

definition NOT_SYLLABLE_FINAL_NON_SEMIVOWEL :: ustr where
  "NOT_SYLLABLE_FINAL_NON_SEMIVOWEL = U ''CSfhjvz''"

definition NOT_SECOND_CONSONANTS :: ustr where
  "NOT_SECOND_CONSONANTS = U ''bCdfghjkmnpsStvz''"

definition SIMPLE_VOWELS :: ustr where
  "SIMPLE_VOWELS = U ''aeiou''"

definition INTERNAL_VOWELS :: ustr where
  "INTERNAL_VOWELS = SIMPLE_VOWELS @ [schwa]"

definition FALLING_DIPHTHONGS :: ustr where
  "FALLING_DIPHTHONGS = U ''ay|aw|ew|oy''"

definition ILLEGAL_FALLING_DIPHTHONGS :: ustr where
  "ILLEGAL_FALLING_DIPHTHONGS = U ''ey|iy|ow|uw''"

definition IU_FALLING_DIPHTHONGS_RE :: re where
  "IU_FALLING_DIPHTHONGS_RE =
     Cat [Grp 1 (Alt [Lit (U ''iw''), Lit (U ''uy'')]), NotAhead (Grp 2 (Chr (In SIMPLE_VOWELS)))]"

definition ILLEGAL_FALLING_DIPHTHONGS_RE :: re where
  "ILLEGAL_FALLING_DIPHTHONGS_RE =
     Cat [Grp 1 (Alt [Lit (U ''ey''), Lit (U ''iy''), Lit (U ''ow''), Lit (U ''uw'')]),
          NotAhead (Grp 2 (Chr (In SIMPLE_VOWELS)))]"



definition ALL_CONSONANTS_RE :: re where
  "ALL_CONSONANTS_RE = Chr (In ALL_CONSONANTS)"

definition INTERNAL_VOWEL_RE :: re where
  "INTERNAL_VOWEL_RE = Chr (In INTERNAL_VOWELS)"

definition ILLEGAL_CONS_PAIR_RE :: re where
  "ILLEGAL_CONS_PAIR_RE =
     Cat [Grp 1 (Chr (In NOT_SYLLABLE_FINAL_NON_SEMIVOWEL)), Grp 2 (Chr (In NOT_SECOND_CONSONANTS))]"

definition INITIAL_KS_RE :: re where
  "INITIAL_KS_RE = Cat [Bol, Lit (U ''ks'')]"

definition TS_COMBI_RE :: re where
  "TS_COMBI_RE = Cat [Alt [Bol, Behind [In SYLLABLE_FINAL_CONSONANTS]], Lit (U ''ts'')]"

definition ILLEGAL_RN_TRIPLE_RE :: re where
  "ILLEGAL_RN_TRIPLE_RE =
     Cat [Grp 1 (Cat [Chr (In (U ''rs'')), Chr (In (U ''mnt''))]), Grp 2 (Chr (In NOT_SECOND_CONSONANTS))]"

definition ILLEGAL_SKPT_TRIPLE_RE :: re where
  "ILLEGAL_SKPT_TRIPLE_RE =
     Cat [Grp 1 (Chr (In SYLLABLE_FINAL_CONSONANTS)),
          Grp 2 (Cat [Lit (U ''s''), Chr (In (U ''kpt'')), Chr Dot])]"

definition INITIAL_CONS_TRIPLE_RE :: re where
  "INITIAL_CONS_TRIPLE_RE =
     Cat [WordB, Grp 1 (Chr (In INITIAL_CONSONANTS)),
          Grp 2 (Cat [Chr (In SYLLABLE_FINAL_CONSONANTS), Chr (In INITIAL_CONSONANTS)])]"

definition ILLEGAL_CONS_TRIPLE_RE :: re where
  "ILLEGAL_CONS_TRIPLE_RE =
     Cat [Grp 1 (Cat [Chr (In SYLLABLE_FINAL_CONSONANTS), Chr (In SYLLABLE_FINAL_CONSONANTS)]),
          Grp 2 (Chr (In NOT_SECOND_CONSONANTS))]"

definition ILLEGAL_CONS_TRIPLE2_RE :: re where
  "ILLEGAL_CONS_TRIPLE2_RE =
     Cat [Grp 1 (Cat [Chr (In INITIAL_NON_SEMIVOWELS), Chr (In (U ''lr''))]),
          Grp 2 (Chr (In ALL_NON_SEMIVOWELS))]"

definition NY_BEFORE_CONSONANT :: re where
  "NY_BEFORE_CONSONANT = Cat [Lit (U ''ny''), Grp 1 (Chr (In INITIAL_CONSONANTS))]"

definition DOUBLE_CONS_RE :: re where
  "DOUBLE_CONS_RE = Cat [Grp 1 (Chr (In ALL_CONSONANTS)), Back 1]"

definition H_BEFORE_CONSONANT :: re where
  "H_BEFORE_CONSONANT = Cat [Lit (U ''h''), Grp 1 (Chr (In ALL_NON_SEMIVOWELS))]"

definition PUNCTUATION_RE :: re where
  "PUNCTUATION_RE = Plus (In (U ''-,.'' @ [8230] @ U '';:!?'' @ [34] @ U ''/()''))"


section \<open>The repair of a candidate (buildutil.py, insert\_filler\_vowels)\<close>

text \<open>
  The source inserts filler vowels between illegal pairs of consonants with
  \<open>while count: word, count = ILLEGAL_CONS_PAIR_RE.subn(r'\1e\2', word)\<close> (with the filler
  vowel for \<open>e\<close>). Every replacement separates one adjacent illegal pair and creates none, so
  the number of such pairs is a measure for the loop.
\<close>

fun illegal_pairs :: "ustr \<Rightarrow> nat" where
  "illegal_pairs (a # b # w) =
     (if a \<in> set NOT_SYLLABLE_FINAL_NON_SEMIVOWEL \<and> b \<in> set NOT_SECOND_CONSONANTS then 1 else 0)
     + illegal_pairs (b # w)"
| "illegal_pairs [a] = 0"
| "illegal_pairs [] = 0"

lemma illegal_pair_match:
  "re_m u ILLEGAL_CONS_PAIR_RE (p, rest, []) =
     (case rest of
        a # b # rest' \<Rightarrow>
          if a \<in> set NOT_SYLLABLE_FINAL_NON_SEMIVOWEL \<and> b \<in> set NOT_SECOND_CONSONANTS
          then [(b # a # p, rest', [(2, [b]), (1, [a])])] else []
      | _ \<Rightarrow> [])"
  by (cases rest; cases "tl rest") (auto simp: ILLEGAL_CONS_PAIR_RE_def)

lemma illegal_pairs_Cons:
  "w \<noteq> [] \<Longrightarrow> illegal_pairs (b # w) =
     (if b \<in> set NOT_SYLLABLE_FINAL_NON_SEMIVOWEL \<and> hd w \<in> set NOT_SECOND_CONSONANTS then 1 else 0)
     + illegal_pairs w"
  by (cases w) simp_all

lemma schwa_no_consonant:
  "schwa \<notin> set NOT_SYLLABLE_FINAL_NON_SEMIVOWEL" "schwa \<notin> set NOT_SECOND_CONSONANTS"
  by (simp_all add: schwa_def NOT_SYLLABLE_FINAL_NON_SEMIVOWEL_def NOT_SECOND_CONSONANTS_def)

declare re_subn_from.simps [simp del]

lemma illegal_pair_subn:
  "re_subn_from u ILLEGAL_CONS_PAIR_RE (\<lambda>m. group m 1 @ [schwa] @ group m 2) p w = (w', n)
   \<Longrightarrow> illegal_pairs w' + n = illegal_pairs w \<and> (w \<noteq> [] \<longrightarrow> w' \<noteq> [] \<and> hd w' = hd w)"
proof (induction "length w" arbitrary: w w' n p rule: less_induct)
  case less
  let ?repl = "\<lambda>m. group m 1 @ [schwa] @ group m 2"
  show ?case
  proof (cases w)
    case Nil
    with less.prems show ?thesis
      by (simp add: re_subn_from.simps [of u _ _ p "[]"] illegal_pair_match)
  next
    case (Cons a cs)
    show ?thesis
    proof (cases "cs \<noteq> [] \<and> a \<in> set NOT_SYLLABLE_FINAL_NON_SEMIVOWEL \<and> hd cs \<in> set NOT_SECOND_CONSONANTS")
      case True
      then obtain b rest where cs: "cs = b # rest" by (cases cs) auto
      obtain out k where r: "re_subn_from u ILLEGAL_CONS_PAIR_RE ?repl (b # a # p) rest = (out, k)"
        by (cases "re_subn_from u ILLEGAL_CONS_PAIR_RE ?repl (b # a # p) rest")
      have res: "w' = a # schwa # b # out" "n = Suc k"
        using less.prems True r unfolding Cons cs
        by (simp_all add: re_subn_from.simps [of u _ _ p "a # b # rest"] illegal_pair_match group_def)
      have ih: "illegal_pairs out + k = illegal_pairs rest \<and> (rest \<noteq> [] \<longrightarrow> out \<noteq> [] \<and> hd out = hd rest)"
        using less.hyps [OF _ r] by (simp add: Cons cs)
      have "illegal_pairs (b # out) + k = illegal_pairs (b # rest)"
      proof (cases "rest = []")
        case True
        with r have "out = []" "k = 0"
          by (simp_all add: re_subn_from.simps [of u _ _ _ "[]"] illegal_pair_match)
        with True show ?thesis by simp
      next
        case False
        with ih show ?thesis by (simp add: illegal_pairs_Cons)
      qed
      then show ?thesis
        using True by (simp add: res Cons cs schwa_no_consonant)
    next
      case False
      obtain out k where r: "re_subn_from u ILLEGAL_CONS_PAIR_RE ?repl (a # p) cs = (out, k)"
        by (cases "re_subn_from u ILLEGAL_CONS_PAIR_RE ?repl (a # p) cs")
      have res: "w' = a # out" "n = k"
        using less.prems False r unfolding Cons
        by (auto simp: re_subn_from.simps [of u _ _ p "a # cs"] illegal_pair_match split: list.splits)
      have ih: "illegal_pairs out + k = illegal_pairs cs \<and> (cs \<noteq> [] \<longrightarrow> out \<noteq> [] \<and> hd out = hd cs)"
        using less.hyps [OF _ r] by (simp add: Cons)
      have "illegal_pairs (a # out) + k = illegal_pairs (a # cs)"
      proof (cases "cs = []")
        case True
        with r have "out = []" "k = 0"
          by (simp_all add: re_subn_from.simps [of u _ _ _ "[]"] illegal_pair_match)
        with True show ?thesis by simp
      next
        case False
        with ih show ?thesis by (simp add: illegal_pairs_Cons)
      qed
      then show ?thesis by (simp add: res Cons)
    qed
  qed
qed

function insert_between_pairs :: "unicode_db \<Rightarrow> ustr \<Rightarrow> ustr" where
  "insert_between_pairs u w =
     (case re_subn u ILLEGAL_CONS_PAIR_RE (\<lambda>m. group m 1 @ [schwa] @ group m 2) w of
        (w', cnt) \<Rightarrow> if cnt \<noteq> 0 then insert_between_pairs u w' else w')"
  by pat_completeness auto
termination
proof (relation "measure (\<lambda>(u, w). illegal_pairs w)")
  show "wf (measure (\<lambda>(u, w). illegal_pairs w))" by simp
next
  fix u w x w' n
  assume "(w', n) = re_subn u ILLEGAL_CONS_PAIR_RE (\<lambda>m. group m 1 @ [schwa] @ group m 2) w"
    and "n \<noteq> 0"
  then have "re_subn_from u ILLEGAL_CONS_PAIR_RE (\<lambda>m. group m 1 @ [schwa] @ group m 2) [] w = (w', n)"
    by (simp add: re_subn_def)
  from illegal_pair_subn [OF this] \<open>n \<noteq> 0\<close>
  show "((u, w'), (u, w)) \<in> measure (\<lambda>(u, w). illegal_pairs w)" by simp
qed


text \<open>
  The body of the loop over the words of a candidate, in the order of the source. Each part
  takes and returns the word and the candidate's penalty; \<open>lng\<close> is \<open>self.lang\<close> and
  \<open>orig\<close> is \<open>self.original\<close>.

  \<open>X\<close> stands for IPA /x/: \<open>h\<close> before vowels (in Spanish also before semivowels), otherwise
  \<open>k\<close> with a penalty.
\<close>

fun ifv_velar :: "unicode_db \<Rightarrow> ustr \<Rightarrow> ustr \<times> int \<Rightarrow> ustr \<times> int" where
  "ifv_velar u lng (w, pen) =
     (let w = re_sub u (Cat [Lit (U ''X''), Grp 1 (Chr (In INTERNAL_VOWELS))])
                (\<lambda>m. U ''h'' @ group m 1) w;
          w = (if lng = U ''es''
               then re_sub u (Cat [Lit (U ''X''), Grp 1 (Chr (In SEMIVOWELS))])
                      (\<lambda>m. U ''h'' @ group m 1) w
               else w);
          x_count = count w (U ''X'')
      in if x_count \<noteq> 0 then (replace (U ''X'') (U ''k'') w, pen + int x_count) else (w, pen))"

text \<open>
  \<open>tx\<close>, \<open>tc\<close>, \<open>iy\<close>, \<open>uw\<close>, double consonants, \<open>ny\<close> before a consonant (not in German)
  and semivowels between consonants.
\<close>

fun ifv_simplify :: "unicode_db \<Rightarrow> ustr \<Rightarrow> ustr \<times> int \<Rightarrow> ustr \<times> int" where
  "ifv_simplify u lng (w, pen) =
     (let w = replace (U ''tc'') (U ''c'') (replace (U ''tx'') (U ''c'') w);
          w = replace (U ''uw'') (U ''u'') (replace (U ''iy'') (U ''i'') w);
          w = re_sub u DOUBLE_CONS_RE (\<lambda>m. group m 1) w;
          w = (if lng \<noteq> U ''de'' then re_sub u NY_BEFORE_CONSONANT (\<lambda>m. U ''n'' @ group m 1) w
               else w);
          w = re_sub u (Cat [Grp 1 (Chr (In ALL_CONSONANTS)), Lit (U ''y''),
                             Ahead (Chr (In ALL_CONSONANTS))])
                (\<lambda>m. group m 1 @ U ''i'') w;
          w = re_sub u (Cat [Grp 1 (Chr (In ALL_CONSONANTS)), Lit (U ''w''),
                             Ahead (Chr (In ALL_CONSONANTS))])
                (\<lambda>m. group m 1 @ U ''u'') w
      in (w, pen))"

text \<open>Initial \<open>ks\<close> and \<open>dz\<close>, and \<open>ts\<close> at the start or after a syllable-final consonant.\<close>

fun ifv_initial :: "unicode_db \<Rightarrow> ustr \<times> int \<Rightarrow> ustr \<times> int" where
  "ifv_initial u (w, pen) =
     (case re_subn u INITIAL_KS_RE (\<lambda>m. U ''s'') w of (w, cnt) \<Rightarrow>
      let pen = pen + int cnt in
      case re_subn u (Cat [Bol, Lit (U ''dz'')]) (\<lambda>m. U ''z'') w of (w, cnt) \<Rightarrow>
      let pen = pen + int cnt in
      case re_subn u TS_COMBI_RE (\<lambda>m. U ''s'') w of (w, cnt) \<Rightarrow>
      (w, pen + int cnt))"

text \<open>
  The diphthongs. The French rule reads \<open>word[-1]\<close>, which raises \<open>IndexError\<close> on an empty
  word. \<open>m.group(1)[0]\<close> is the first letter of the two-letter diphthong.
\<close>

fun ifv_diphthongs ::
  "unicode_db \<Rightarrow> ustr \<Rightarrow> ustr \<Rightarrow> ustr \<times> int \<Rightarrow> py_error + (ustr \<times> int)" where
  "ifv_diphthongs u lng orig (w, pen) =
     (let w = (if endswith w (U ''iy'') then butlast w else w);
          w = re_sub u IU_FALLING_DIPHTHONGS_RE
                (\<lambda>m. if group m 1 = U ''iw'' then U ''iu'' else U ''ui'') w
      in if lng = U ''fr'' \<and> w = [] then Inl IndexError
         else
           let w = (if lng = U ''fr'' \<and> last w = of_char CHR ''y''
                       \<and> re_search u (Cat [Grp 1 (Alt [Lit (U ''eil''),
                                                       Cat [Lit (U ''ille''), Opt (Lit (U ''s''))]]),
                                          WordB]) orig
                       \<and> length w \<ge> 2
                       \<and> contains ILLEGAL_FALLING_DIPHTHONGS (drop (length w - 2) w)
                    then butlast w @ U ''i'' else w)
           in case re_subn u ILLEGAL_FALLING_DIPHTHONGS_RE (\<lambda>m. take 1 (group m 1)) w of
                (w, num_replacements) \<Rightarrow>
                  Inr (w, if num_replacements \<noteq> 0 then pen + int num_replacements else pen))"

text \<open>Final \<open>h\<close> and \<open>h\<close> before a consonant other than a semivowel are dropped.\<close>

fun ifv_h :: "unicode_db \<Rightarrow> ustr \<times> int \<Rightarrow> ustr \<times> int" where
  "ifv_h u (w, pen) =
     (case (if endswith w (U ''h'') then (butlast w, pen + 1) else (w, pen)) of (w, pen) \<Rightarrow>
      case re_subn u H_BEFORE_CONSONANT (\<lambda>m. group m 1) w of (w, cnt) \<Rightarrow>
      (w, pen + int cnt))"

text \<open>The velar nasal \<open>N\<close> at the end of the word and at the start of a syllable.\<close>

fun ifv_velar_nasal :: "unicode_db \<Rightarrow> ustr \<times> int \<Rightarrow> ustr \<times> int" where
  "ifv_velar_nasal u (w, pen) =
     (let w = re_sub u (Cat [Grp 1 (Chr (In ALL_NON_SEMIVOWELS)), Lit (U ''N''), Eol])
                (\<lambda>m. group m 1 @ [schwa] @ U ''N'') w;
          w = replace (U ''nN'') (U ''N'') w;
          w = re_sub u (Cat [Grp 1 (Alt [Bol, Chr (In SYLLABLE_FINAL_CONSONANTS)]),
                             Grp 2 (Cat [Lit (U ''N''), Opt (Lit (U ''g'')),
                                         Chr (In (SIMPLE_VOWELS @ U ''lr''))])])
                (\<lambda>m. group m 1 @ [schwa] @ group m 2) w
      in (w, pen))"

text \<open>\<open>SC\<close> and a final \<open>z\<close> after a vowel.\<close>

fun ifv_sibilants :: "unicode_db \<Rightarrow> ustr \<times> int \<Rightarrow> ustr \<times> int" where
  "ifv_sibilants u (w, pen) =
     (case re_subn u (Cat [Grp 1 (Chr (In INTERNAL_VOWELS)), Lit (U ''SC'')])
             (\<lambda>m. group m 1 @ U ''sC'') w of (w, num_replacements) \<Rightarrow>
      let pen = (if num_replacements \<noteq> 0 then pen + int num_replacements else pen);
          sc_count = count w (U ''SC'')
      in case (if sc_count \<noteq> 0 then (replace (U ''SC'') (U ''C'') w, pen + int sc_count)
               else (w, pen)) of (w, pen) \<Rightarrow>
         if re_search u (Cat [Chr (In INTERNAL_VOWELS), Lit (U ''z''), Eol]) w
         then (butlast w @ U ''s'', pen + 1) else (w, pen))"

text \<open>Filler vowels between illegal pairs and triples of consonants.\<close>

fun ifv_clusters :: "unicode_db \<Rightarrow> ustr \<Rightarrow> ustr \<times> int \<Rightarrow> ustr \<times> int" where
  "ifv_clusters u lng (w, pen) =
     (let w = replace (U ''rld'') (U ''r'' @ [schwa] @ U ''ld'') w;
          w = re_sub u ILLEGAL_SKPT_TRIPLE_RE (\<lambda>m. group m 1 @ [schwa] @ group m 2) w;
          w = (if lng = U ''de''
               then re_sub u (Cat [Lit (U ''Sv''), Grp 1 (Chr (In INTERNAL_VOWELS))])
                      (\<lambda>m. U ''Sw'' @ group m 1) w
               else w);
          w = insert_between_pairs u w;
          w = re_sub u ILLEGAL_RN_TRIPLE_RE (\<lambda>m. group m 1 @ [schwa] @ group m 2) w;
          w = re_sub u (Cat [Grp 1 (Chr (In (U ''np''))), Lit (U ''mn'')])
                (\<lambda>m. group m 1 @ U ''m'' @ [schwa] @ U ''n'') w;
          w = replace (U ''stl'') (U ''st'' @ [schwa] @ U ''l'') w;
          w = replace (U ''stv'') (U ''st'' @ [schwa] @ U ''v'') w;
          w = replace (U ''smr'') (U ''s'' @ [schwa] @ U ''mr'') w;
          w = re_sub u (Cat [Bol, Grp 1 (Cat [Lit (U ''s''), Chr (In INITIAL_NON_SEMIVOWELS),
                                              Chr (In SECOND_CONSONANTS)])])
                (\<lambda>m. schwa # group m 1) w;
          w = re_sub u INITIAL_CONS_TRIPLE_RE (\<lambda>m. group m 1 @ [schwa] @ group m 2) w;
          w = re_sub u ILLEGAL_CONS_TRIPLE_RE (\<lambda>m. group m 1 @ [schwa] @ group m 2) w;
          w = re_sub u ILLEGAL_CONS_TRIPLE2_RE (\<lambda>m. group m 1 @ [schwa] @ group m 2) w;
          w = re_sub u (Cat [Bol, Lit (U ''wh'')]) (\<lambda>m. U ''w'') w
      in (w, pen))"

text \<open>Semivowels that cannot be a second consonant become the corresponding vowel.\<close>

definition semivowel_vowel :: "ustr \<Rightarrow> ustr" where
  "semivowel_vowel s = (if s = U ''w'' then U ''u'' else U ''i'')"

definition semivowel_pair :: "ustr \<Rightarrow> ustr" where
  "semivowel_pair s = (if s = U ''wy'' then U ''uy'' else U ''iw'')"

fun ifv_semivowels :: "unicode_db \<Rightarrow> ustr \<times> int \<Rightarrow> ustr \<times> int" where
  "ifv_semivowels u (w, pen) =
     (let w = re_sub u (Cat [Bol, Grp 1 (Chr (In SEMIVOWELS)), Grp 2 (Chr (In NOT_SECOND_CONSONANTS))])
                (\<lambda>m. semivowel_vowel (group m 1) @ group m 2) w;
          w = re_sub u (Cat [Grp 1 (Alt [Bol, Chr (In SYLLABLE_FINAL_CONSONANTS)]),
                             Grp 2 (Cat [Chr (In INITIAL_NON_SEMIVOWELS), Chr (In (U ''lr''))]),
                             Grp 3 (Chr (In (U ''wy'')))])
                (\<lambda>m. group m 1 @ group m 2 @ semivowel_vowel (group m 3)) w;
          w = re_sub u (Cat [Grp 1 (Cat [Chr (In (INTERNAL_VOWELS @ SEMIVOWELS)),
                                         Chr (In NOT_SYLLABLE_FINAL_NON_SEMIVOWEL),
                                         Chr (In (U ''lr''))]),
                             Grp 2 (Chr (In (U ''wy'')))])
                (\<lambda>m. group m 1 @ semivowel_vowel (group m 2)) w;
          w = re_sub u (Cat [Grp 1 (Alt [Bol, Chr (In SYLLABLE_FINAL_CONSONANTS)]),
                             Grp 2 (Chr (In INITIAL_NON_SEMIVOWELS)),
                             Grp 3 (Alt [Lit (U ''wy''), Lit (U ''yw'')])])
                (\<lambda>m. group m 1 @ group m 2 @ semivowel_pair (group m 3)) w;
          w = re_sub u (Cat [Grp 1 (Cat [Chr (In (INTERNAL_VOWELS @ SEMIVOWELS)),
                                         Chr (In NOT_SYLLABLE_FINAL_NON_SEMIVOWEL)]),
                             Grp 2 (Alt [Lit (U ''wy''), Lit (U ''yw'')])])
                (\<lambda>m. group m 1 @ semivowel_pair (group m 2)) w;
          w = re_sub u (Cat [Grp 1 (Chr (In SYLLABLE_FINAL_CONSONANTS)), Lit (U ''N'' @ [schwa] @ U ''k'')])
                (\<lambda>m. group m 1 @ U ''n'' @ [schwa] @ U ''k'') w
      in (w, pen))"

text \<open>
  The edges of the word, the word without a vowel, the final clean-up, and the penalty for
  the filler vowels of the final word. \<open>word[-2]\<close> is read only in words of more than two
  letters and \<open>word[0]\<close>, \<open>word[1]\<close> only in words of at least two.
\<close>

fun ifv_edges :: "unicode_db \<Rightarrow> ustr \<Rightarrow> ustr \<times> int \<Rightarrow> ustr \<times> int" where
  "ifv_edges u lng (w, pen) =
     (let w = (if length w = 2 \<and> w ! 0 \<in> set INITIAL_NON_SEMIVOWELS
                  \<and> w ! 1 \<in> set WORD_FINAL_CONSONANTS \<and> w ! 1 \<notin> set SECOND_CONSONANTS
               then [w ! 0, schwa, w ! 1] else w);
          w = (if length w \<ge> 2 \<and> w ! 0 \<in> set SYLLABLE_FINAL_CONSONANTS
                  \<and> w ! 1 \<in> set NOT_SECOND_CONSONANTS
               then schwa # w else w);
          w = (if (w \<noteq> [] \<and> last w \<in> set NOT_WORD_FINAL_NON_SEMIVOWEL)
                  \<or> (length w > 2
                      \<and> (w ! (length w - 2) \<in> set INITIAL_CONSONANTS \<and> last w \<in> set SECOND_CONSONANTS
                          \<or> w ! (length w - 2) \<in> set SYLLABLE_FINAL_CONSONANTS
                              \<and> last w \<in> set INITIAL_CONSONANTS
                          \<or> last w \<in> set SEMIVOWELS
                              \<and> \<not> contains FALLING_DIPHTHONGS (drop (length w - 2) w)))
               then w @ [schwa] else w);
          w = (if re_search u ALL_CONSONANTS_RE w \<and> \<not> re_search u INTERNAL_VOWEL_RE w
               then w @ [schwa] else w);
          w = (if w = U ''N'' @ [schwa] then schwa # U ''N'' else w);
          w = replace (U ''N'' @ [schwa] @ U ''g'') (U ''Ng'') w;
          w = re_sub u DOUBLE_CONS_RE (\<lambda>m. group m 1) w;
          w = (if lng = U ''ru'' then replace (U ''ii'') (U ''i'') w else w)
      in (w, pen + int (count w [schwa])))"

definition repair_word ::
  "unicode_db \<Rightarrow> ustr \<Rightarrow> ustr \<Rightarrow> ustr \<times> int \<Rightarrow> py_error + (ustr \<times> int)" where
  "repair_word u lng orig wp =
     (case ifv_diphthongs u lng orig (ifv_initial u (ifv_simplify u lng (ifv_velar u lng wp))) of
        Inl e \<Rightarrow> Inl e
      | Inr wp \<Rightarrow>
          Inr (ifv_edges u lng (ifv_semivowels u (ifv_clusters u lng
                 (ifv_sibilants u (ifv_velar_nasal u (ifv_h u wp)))))))"

text \<open>\<open>for word in words: ... new_words.append(word)\<close>, with the penalty handed on.\<close>

fun repair_words ::
  "unicode_db \<Rightarrow> ustr \<Rightarrow> ustr \<Rightarrow> ustr list \<Rightarrow> int \<Rightarrow> py_error + (ustr list \<times> int)" where
  "repair_words u lng orig [] pen = Inr ([], pen)"
| "repair_words u lng orig (w # ws) pen =
     (case repair_word u lng orig (w, pen) of
        Inl e \<Rightarrow> Inl e
      | Inr (w', pen') \<Rightarrow>
          (case repair_words u lng orig ws pen' of
             Inl e \<Rightarrow> Inl e
           | Inr (new_words, pen'') \<Rightarrow> Inr (w' # new_words, pen'')))"

text \<open>
  \<open>insert_filler_vowels\<close> updates the candidate in place; the model returns the updated
  candidate, or the exception that ends the call.
\<close>

definition insert_filler_vowels :: "unicode_db \<Rightarrow> candidate \<Rightarrow> py_error + candidate" where
  "insert_filler_vowels u self =
     (if filled self then Inr self
      else
        let text = re_sub u PUNCTUATION_RE (\<lambda>m. U '' '') (word self);
            words = split text
        in case repair_words u (lang self) (original self) words (penalty self) of
             Inl e \<Rightarrow> Inl e
           | Inr (new_words, pen) \<Rightarrow>
               Inr (self\<lparr>word := join (U '' '') new_words, penalty := pen, filled := True\<rparr>))"

section \<open>The validator (buildutil.py, validate)\<close>

text \<open>
  \<open>validate\<close> returns an error message or \<open>None\<close>; the message about unexpected characters
  is also logged as a warning.
\<close>

fun validate_parts :: "ustr \<Rightarrow> nat \<Rightarrow> (nat \<times> ustr) list \<Rightarrow> ustr option" where
  "validate_parts w last_idx [] = None"
| "validate_parts w last_idx ((idx, part) # rest) =
     (if part = [] then validate_parts w last_idx rest
      else if idx = last_idx \<and> (length part > 1 \<or> \<not> contains WORD_FINAL_CONSONANTS part)
      then Some ([34] @ part @ [34] @ U '' is not allowed at the end of words ('' @ w @ U '')'')
      else
        let part = (if idx > 0 \<and> hd part \<in> set SYLLABLE_FINAL_CONSONANTS then tl part else part)
        in if part = [] then validate_parts w last_idx rest
           else if length part > 2 \<or> hd part \<notin> set INITIAL_CONSONANTS
                   \<or> (length part = 2 \<and> part ! 1 \<notin> set SECOND_CONSONANTS)
           then Some ([34] @ part @ [34] @ U '' is not allowed at the start of syllables (''
                      @ w @ U '')'')
           else validate_parts w last_idx rest)"

fun validate_words :: "unicode_db \<Rightarrow> ustr list \<Rightarrow> ustr option" where
  "validate_words u [] = None"
| "validate_words u (w # ws) =
     (let parts = re_split u (Alt [Lit (U ''ay''), Lit (U ''aw''), Lit (U ''ew''), Lit (U ''oy''),
                                   Chr (In INTERNAL_VOWELS)]) w
      in case validate_parts w (length parts - 1) (enumerate 0 parts) of
           Some err \<Rightarrow> Some err
         | None \<Rightarrow> validate_words u ws)"

definition validate :: "unicode_db \<Rightarrow> candidate \<Rightarrow> store \<Rightarrow> ustr option \<times> store" where
  "validate u self st =
     (let unexpected = filter (\<lambda>c. c \<notin> set (ALL_CONSONANTS @ INTERNAL_VOWELS @ U '' '')) (word self)
      in if unexpected \<noteq> []
         then
           let err_msg = lang self @ U '' candidate contains unexpected characters: '' @ word self
                         @ U '' ('' @ sort (remdups unexpected) @ U '')''
           in (Some err_msg, LOG_warn err_msg st)
         else (validate_words u (split (word self)), st))"

section \<open>Properties of the repair\<close>

text \<open>Up to the French rule, no part of the repair empties a word, so \<open>word[-1]\<close> is defined.\<close>

lemma re_subn_from_nonempty:
  assumes "rest \<noteq> []"
    and "\<And>p rest p' rest' g ms. re_m u r (p, rest, []) = (p', rest', g) # ms
           \<Longrightarrow> repl (take (length rest - length rest') rest, g) \<noteq> []"
  shows "fst (re_subn_from u r repl p rest) \<noteq> []"
proof -
  obtain c cs where rest: "rest = c # cs" using assms(1) by (cases rest) auto
  show ?thesis
  proof (cases "re_m u r (p, rest, [])")
    case Nil
    then show ?thesis
      by (subst re_subn_from.simps) (simp add: rest split: prod.splits)
  next
    case (Cons s ms)
    obtain p' rest' g where s: "s = (p', rest', g)" by (cases s)
    from assms(2) [of p rest p' rest' g ms] Cons s
    have "repl (take (length rest - length rest') rest, g) \<noteq> []" by simp
    with Cons s show ?thesis
      by (subst re_subn_from.simps) (simp add: rest split: prod.splits)
  qed
qed

lemma re_sub_nonempty:
  "w \<noteq> [] \<Longrightarrow> (\<And>m. repl m \<noteq> []) \<Longrightarrow> re_sub u r repl w \<noteq> []"
  by (simp add: re_sub_def re_subn_def re_subn_from_nonempty)

lemma re_subn_nonempty:
  "w \<noteq> [] \<Longrightarrow> (\<And>m. repl m \<noteq> []) \<Longrightarrow> re_subn u r repl w = (w', n) \<Longrightarrow> w' \<noteq> []"
  using re_subn_from_nonempty [of w u r repl "[]"] by (simp add: re_subn_def)

lemma double_cons_nonempty:
  "w \<noteq> [] \<Longrightarrow> re_sub u DOUBLE_CONS_RE (\<lambda>m. group m 1) w \<noteq> []"
  unfolding re_sub_def re_subn_def
proof (rule re_subn_from_nonempty)
  fix p rest p' rest' g ms
  assume "re_m u DOUBLE_CONS_RE (p, rest, []) = (p', rest', g) # ms"
  then show "group (take (length rest - length rest') rest, g) 1 \<noteq> []"
    by (cases rest) (auto simp: DOUBLE_CONS_RE_def group_def split: if_splits)
qed

lemma replace_nonempty: "w \<noteq> [] \<Longrightarrow> new \<noteq> [] \<Longrightarrow> replace old new w \<noteq> []"
  by (cases w) auto

lemma butlast_nonempty_iy: "endswith w (U ''iy'') \<Longrightarrow> butlast w \<noteq> []"
  by (cases w rule: rev_cases) (auto simp: endswith_def)

lemma split_ws_nonempty: "x \<in> set (split_ws cur s) \<Longrightarrow> x \<noteq> []"
  by (induction cur s rule: split_ws.induct) (auto split: if_splits)

lemma ifv_velar_nonempty: "w \<noteq> [] \<Longrightarrow> fst (ifv_velar u lng (w, pen)) \<noteq> []"
  by (simp add: Let_def re_sub_nonempty replace_nonempty)

lemma ifv_simplify_nonempty: "w \<noteq> [] \<Longrightarrow> fst (ifv_simplify u lng (w, pen)) \<noteq> []"
  by (simp add: Let_def re_sub_nonempty replace_nonempty double_cons_nonempty [unfolded One_nat_def])

lemma ifv_initial_nonempty: "w \<noteq> [] \<Longrightarrow> fst (ifv_initial u (w, pen)) \<noteq> []"
  by (auto simp: Let_def split: prod.splits dest!: re_subn_nonempty [rotated 2])

lemma ifv_diphthongs_returns:
  "w \<noteq> [] \<Longrightarrow> \<exists>wp. ifv_diphthongs u lng orig (w, pen) = Inr wp"
proof -
  assume w: "w \<noteq> []"
  have 1: "(if endswith w (U ''iy'') then butlast w else w) \<noteq> []"
    using w by (simp add: butlast_nonempty_iy)
  have 2: "re_sub u IU_FALLING_DIPHTHONGS_RE
             (\<lambda>m. if group m 1 = U ''iw'' then U ''iu'' else U ''ui'')
             (if endswith w (U ''iy'') then butlast w else w) \<noteq> []"
    by (rule re_sub_nonempty [OF 1]) simp
  show ?thesis
    using 2 by (simp add: Let_def split: prod.splits)
qed

lemma repair_word_returns:
  assumes "w \<noteq> []"
  shows "\<exists>wp. repair_word u lng orig (w, pen) = Inr wp"
proof -
  obtain w1 p1 where 1: "ifv_velar u lng (w, pen) = (w1, p1)" by (cases "ifv_velar u lng (w, pen)")
  obtain w2 p2 where 2: "ifv_simplify u lng (w1, p1) = (w2, p2)" by (cases "ifv_simplify u lng (w1, p1)")
  obtain w3 p3 where 3: "ifv_initial u (w2, p2) = (w3, p3)" by (cases "ifv_initial u (w2, p2)")
  have "w1 \<noteq> []" using ifv_velar_nonempty [OF assms, of u lng pen] 1 by simp
  then have "w2 \<noteq> []" using ifv_simplify_nonempty [of w1 u lng p1] 2 by simp
  then have "w3 \<noteq> []" using ifv_initial_nonempty [of w2 u p2] 3 by simp
  from ifv_diphthongs_returns [OF this, of u lng orig p3]
  show ?thesis unfolding repair_word_def 1 2 3 by auto
qed

lemma repair_words_returns:
  "\<forall>w \<in> set ws. w \<noteq> [] \<Longrightarrow> \<exists>r. repair_words u lng orig ws pen = Inr r"
proof (induction ws arbitrary: pen)
  case Nil
  show ?case by simp
next
  case (Cons w ws)
  then obtain w' pen' where 1: "repair_word u lng orig (w, pen) = Inr (w', pen')"
    using repair_word_returns [of w u lng orig pen] by auto
  from Cons obtain r where "repair_words u lng orig ws pen' = Inr r" by fastforce
  with 1 show ?case by (cases r) simp
qed

lemma insert_filler_vowels_returns: "\<exists>c'. insert_filler_vowels u c = Inr c'"
proof (cases "filled c")
  case True
  then show ?thesis by (simp add: insert_filler_vowels_def)
next
  case False
  have "\<forall>w \<in> set (split (re_sub u PUNCTUATION_RE (\<lambda>m. U '' '') (word c))). w \<noteq> []"
    by (auto simp: split_def dest: split_ws_nonempty)
  from repair_words_returns [OF this, of u "lang c" "original c" "penalty c"]
  show ?thesis using False by (auto simp: insert_filler_vowels_def Let_def)
qed

lemma insert_filler_vowels_filled: "insert_filler_vowels u c = Inr c' \<Longrightarrow> filled c'"
  by (auto simp: insert_filler_vowels_def Let_def split: if_splits sum.splits prod.splits)

text \<open>
  C2. Repair idempotence: for every candidate, \<open>insert_filler_vowels\<close> returns, and a
  second call on the repaired candidate leaves its word and its penalty (and every other field)
  as the first call left them.
\<close>

theorem insert_filler_vowels_idempotent:
  "\<exists>c' c''. insert_filler_vowels u c = Inr c' \<and> insert_filler_vowels u c' = Inr c''
     \<and> word c'' = word c' \<and> penalty c'' = penalty c'"
proof -
  obtain c' where 1: "insert_filler_vowels u c = Inr c'"
    using insert_filler_vowels_returns by blast
  then have "filled c'" by (rule insert_filler_vowels_filled)
  then have "insert_filler_vowels u c' = Inr c'" by (simp add: insert_filler_vowels_def)
  with 1 show ?thesis by blast
qed


theorem insert_filler_vowels_idempotent_witness:
  "insert_filler_vowels ascii_db (Candidate (U ''st'') 0 (U ''en'') (U ''st'') None [])
     = Inr ((Candidate (U ''s'' @ [schwa] @ U ''t'') 1 (U ''en'') (U ''st'') None [])\<lparr>filled := True\<rparr>)
   \<and> insert_filler_vowels ascii_db
        ((Candidate (U ''s'' @ [schwa] @ U ''t'') 1 (U ''en'') (U ''st'') None [])\<lparr>filled := True\<rparr>)
     = Inr ((Candidate (U ''s'' @ [schwa] @ U ''t'') 1 (U ''en'') (U ''st'') None [])\<lparr>filled := True\<rparr>)"
proof -
  have e: "insert_filler_vowels ascii_db (Candidate (U ''st'') 0 (U ''en'') (U ''st'') None [])
     = Inr ((Candidate (U ''s'' @ [schwa] @ U ''t'') 1 (U ''en'') (U ''st'') None [])\<lparr>filled := True\<rparr>)"
    by code_simp
  from insert_filler_vowels_idempotent [of ascii_db "Candidate (U ''st'') 0 (U ''en'') (U ''st'') None []"]
  obtain c' c'' where "insert_filler_vowels ascii_db (Candidate (U ''st'') 0 (U ''en'') (U ''st'') None []) = Inr c'"
    and "insert_filler_vowels ascii_db c' = Inr c''" and "word c'' = word c'" and "penalty c'' = penalty c'"
    by blast
  with e insert_filler_vowels_filled [of ascii_db c' c''] show ?thesis
    by (auto simp: insert_filler_vowels_def)
qed


section \<open>The mapper (buildvoc.py, mk\_candidate)\<close>

text \<open>\<open>util.has_latin_letter\<close>.\<close>

definition has_latin_letter :: "unicode_db \<Rightarrow> ustr \<Rightarrow> bool" where
  "has_latin_letter u text = list_ex (\<lambda>c. isalpha u c \<and> name_is_latin u c) text"

text \<open>
  A word may be followed by a comment in parentheses, which is stripped: when the word ends
  with \<open>)\<close> and contains \<open>(\<close>, the text before the first \<open>(\<close>, without outer whitespace.
\<close>

definition strip_comment :: "ustr \<Rightarrow> ustr" where
  "strip_comment w =
     (if endswith w (U '')'')
      then let start_idx = find w (U ''('')
           in if start_idx \<ge> 0 then strip (take (nat start_idx) w) else w
      else w)"

text \<open>
  The conversion loop. \<open>longest_match\<close> is the inner \<open>for idx in range(min(maxkeylen,
  len(rest_word)), 0, -1)\<close>: it probes the prefixes of the rest from the longest to the one
  of length 1. The state of the loop is \<open>out_word\<close>, \<open>penalty\<close>, \<open>rest_word\<close> and
  the store with the logger.
\<close>

fun longest_match :: "(ustr \<rightharpoonup> conversion) \<Rightarrow> ustr \<Rightarrow> nat \<Rightarrow> (nat \<times> conversion) option" where
  "longest_match convdict rest_word 0 = None"
| "longest_match convdict rest_word (Suc n) =
     (case convdict (take (Suc n) rest_word) of
        Some conv \<Rightarrow> Some (Suc n, conv)
      | None \<Rightarrow> longest_match convdict rest_word n)"

type_synonym conv_state = "ustr \<times> int \<times> ustr \<times> store"

definition convert_step ::
  "(ustr \<rightharpoonup> conversion) \<Rightarrow> int \<Rightarrow> ustr \<Rightarrow> ustr \<Rightarrow> conv_state \<Rightarrow> conv_state" where
  "convert_step convdict maxkeylen langcode w s =
     (case s of (out_word, pen, rest_word, st) \<Rightarrow>
        (case longest_match convdict rest_word (nat (min maxkeylen (int (length rest_word)))) of
           Some (idx, conv) \<Rightarrow>
             (out_word @ conv_output conv, pen + (if conv_penalty conv then 1 else 0),
              drop idx rest_word, st)
         | None \<Rightarrow>
             (out_word @ take 1 rest_word, pen, drop 1 rest_word,
              LOG_warn (U ''Unexpected character '' @ [34] @ take 1 rest_word @ [34]
                        @ U '' encountered while converting '' @ langcode @ U '' candidate ''
                        @ [34] @ w @ [34] @ U ''.'') st)))"

lemma longest_match_idx:
  "longest_match convdict rest_word n = Some (idx, conv) \<Longrightarrow> 0 < idx \<and> idx \<le> n"
  by (induction n) (auto split: option.splits)

lemma convert_step_progress:
  assumes "rest_word \<noteq> []"
    and "convert_step convdict maxkeylen langcode w (out_word, pen, rest_word, st)
           = (out_word', pen', rest_word', st')"
  shows "length rest_word' < length rest_word"
proof (cases "longest_match convdict rest_word (nat (min maxkeylen (int (length rest_word))))")
  case None
  with assms show ?thesis by (auto simp: convert_step_def)
next
  case (Some m)
  obtain idx conv where m: "m = (idx, conv)" by (cases m)
  from longest_match_idx [of convdict rest_word _ idx conv] Some m
  have "0 < idx" by simp
  with assms Some m show ?thesis by (auto simp: convert_step_def)
qed

function convert_loop ::
  "(ustr \<rightharpoonup> conversion) \<Rightarrow> int \<Rightarrow> ustr \<Rightarrow> ustr \<Rightarrow> conv_state \<Rightarrow> conv_state" where
  "convert_loop convdict maxkeylen langcode w (out_word, pen, rest_word, st) =
     (if rest_word \<noteq> []
      then convert_loop convdict maxkeylen langcode w
             (convert_step convdict maxkeylen langcode w (out_word, pen, rest_word, st))
      else (out_word, pen, rest_word, st))"
  by pat_completeness auto
termination
proof (relation "measure (\<lambda>(convdict, maxkeylen, langcode, w, out_word, pen, rest_word, st).
                            length rest_word)")
  show "wf (measure (\<lambda>(convdict, maxkeylen, langcode, w, out_word, pen, rest_word, st :: store).
                            length (rest_word :: ustr)))"
    by simp
next
  fix convdict :: "ustr \<rightharpoonup> conversion" and maxkeylen :: int and langcode w out_word :: ustr
    and pen :: int and rest_word :: ustr and st :: store
  assume ne: "rest_word \<noteq> []"
  obtain out_word' pen' rest_word' st' where
    s: "convert_step convdict maxkeylen langcode w (out_word, pen, rest_word, st)
          = (out_word', pen', rest_word', st')"
    by (cases "convert_step convdict maxkeylen langcode w (out_word, pen, rest_word, st)")
  from convert_step_progress [OF ne s]
  show "((convdict, maxkeylen, langcode, w,
          convert_step convdict maxkeylen langcode w (out_word, pen, rest_word, st)),
         (convdict, maxkeylen, langcode, w, out_word, pen, rest_word, st))
        \<in> measure (\<lambda>(convdict, maxkeylen, langcode, w, out_word, pen, rest_word, st).
                            length rest_word)"
    by (simp add: s)
qed

text \<open>
  \<open>preprocess_candidate_word\<close> and \<open>postprocess_candidate\<close> are the per-language
  rewriting rules; they neither log nor change the builder. They are parameters here, functions
  that return a string or raise. A new \<open>Candidate\<close> object gets the next reference of the
  store. The result is \<open>None\<close>, a reference to a candidate, or the exception that ended the
  call, together with the builder (whose cache is updated) and the store.
\<close>

definition cache_key :: "ustr \<Rightarrow> ustr \<Rightarrow> ustr" where
  "cache_key langcode w = langcode @ U '':'' @ w"

definition new_object :: "candidate \<Rightarrow> store \<Rightarrow> ref \<times> store" where
  "new_object c st =
     (next_ref st, st\<lparr>heap := (heap st)(next_ref st := c), next_ref := Suc (next_ref st)\<rparr>)"

definition mk_candidate ::
  "unicode_db \<Rightarrow> (ustr \<Rightarrow> ustr \<Rightarrow> ustr \<Rightarrow> py_error + ustr)
   \<Rightarrow> (ustr \<Rightarrow> ustr \<Rightarrow> ustr \<Rightarrow> ustr \<Rightarrow> py_error + ustr)
   \<Rightarrow> vocbuilder \<Rightarrow> store \<Rightarrow> ustr \<Rightarrow> ustr \<Rightarrow> ustr \<Rightarrow> ustr \<Rightarrow> ustr option
   \<Rightarrow> (py_error + ref option) \<times> vocbuilder \<times> store" where
  "mk_candidate u preprocess_candidate_word postprocess_candidate self st w langcode
       conv_dict_name cls true_orig =
     (case candi_cache self (cache_key langcode w) of
        Some result \<Rightarrow> (Inr result, self, st)
      | None \<Rightarrow>
          let key = cache_key langcode w;
              w = strip_comment w
          in if \<not> (w \<noteq> [] \<and> has_latin_letter u w)
             then (Inr None, self\<lparr>candi_cache := (candi_cache self)(key \<mapsto> None)\<rparr>, st)
             else
               let orig = w in
               case convdicts self conv_dict_name of
                 None \<Rightarrow>
                   (case new_object (Candidate (lower u orig) 0 langcode orig true_orig
                                       (vb_auxlangs self)) st of
                      (result, st) \<Rightarrow>
                        (Inr (Some result),
                         self\<lparr>candi_cache := (candi_cache self)(key \<mapsto> Some result)\<rparr>, st))
               | Some convdict \<Rightarrow>
                   (case preprocess_candidate_word w conv_dict_name cls of
                      Inl e \<Rightarrow> (Inl e, self, st)
                    | Inr w \<Rightarrow>
                        (case maxkeylengths self conv_dict_name of
                           None \<Rightarrow> (Inl KeyError, self, st)
                         | Some maxkeylen \<Rightarrow>
                             (case convert_loop convdict maxkeylen langcode w ([], 0, w, st) of
                                (out_word, pen, rest_word, st) \<Rightarrow>
                                  (case postprocess_candidate out_word w conv_dict_name cls of
                                     Inl e \<Rightarrow> (Inl e, self, st)
                                   | Inr out_word \<Rightarrow>
                                       (case new_object (Candidate out_word pen langcode orig
                                                           true_orig (vb_auxlangs self)) st of
                                          (result, st) \<Rightarrow>
                                            (Inr (Some result),
                                             self\<lparr>candi_cache :=
                                                     (candi_cache self)(key \<mapsto> Some result)\<rparr>,
                                             st)))))))"


definition rest_of :: "conv_state \<Rightarrow> ustr" where
  "rest_of s = (case s of (out_word, pen, rest_word, st) \<Rightarrow> rest_word)"



declare convert_loop.simps [simp del]

lemma convert_loop_iterates:
  "\<exists>n \<le> length (rest_of s).
      convert_loop convdict maxkeylen langcode w s = ((convert_step convdict maxkeylen langcode w) ^^ n) s
      \<and> rest_of (convert_loop convdict maxkeylen langcode w s) = []"
proof (induction "length (rest_of s)" arbitrary: s rule: less_induct)
  case less
  obtain out_word pen rest_word st where s: "s = (out_word, pen, rest_word, st)" by (cases s)
  show ?case
  proof (cases "rest_word = []")
    case True
    then have "convert_loop convdict maxkeylen langcode w s = s"
      by (simp add: s convert_loop.simps)
    with True show ?thesis by (intro exI [of _ 0]) (simp add: s rest_of_def)
  next
    case False
    let ?s' = "convert_step convdict maxkeylen langcode w s"
    obtain out_word' pen' rest_word' st' where s': "?s' = (out_word', pen', rest_word', st')"
      by (cases ?s')
    from convert_step_progress [OF False s' [unfolded s]]
    have lt: "length (rest_of ?s') < length (rest_of s)"
      unfolding s' by (simp add: s rest_of_def)
    from less [OF lt] obtain n where n: "n \<le> length (rest_of ?s')"
      "convert_loop convdict maxkeylen langcode w ?s'
         = ((convert_step convdict maxkeylen langcode w) ^^ n) ?s'"
      "rest_of (convert_loop convdict maxkeylen langcode w ?s') = []"
      by blast
    have unf: "convert_loop convdict maxkeylen langcode w s
               = convert_loop convdict maxkeylen langcode w ?s'"
      using False by (simp add: s convert_loop.simps)
    show ?thesis
    proof (intro exI [of _ "Suc n"] conjI)
      show "Suc n \<le> length (rest_of s)" using n(1) lt by simp
      show "convert_loop convdict maxkeylen langcode w s
            = ((convert_step convdict maxkeylen langcode w) ^^ Suc n) s"
        by (simp add: unf n(2) funpow_swap1)
      show "rest_of (convert_loop convdict maxkeylen langcode w s) = []"
        by (simp add: unf n(3))
    qed
  qed
qed

text \<open>
  C9. Every iteration of the conversion loop shortens the rest of the input by at least one
  character; when no prefix of the rest is a key of the table, the first character is copied
  to the output, a warning is logged and the rest loses that character. Hence the loop ends
  after at most as many iterations as the input has characters, with the whole input consumed;
  no iteration raises.
\<close>

theorem convert_loop_terminates:
  "(rest_word \<noteq> [] \<longrightarrow>
      length (rest_of (convert_step convdict maxkeylen langcode w (out_word, pen, rest_word, st)))
        < length rest_word
      \<and> (longest_match convdict rest_word (nat (min maxkeylen (int (length rest_word)))) = None
           \<longrightarrow> convert_step convdict maxkeylen langcode w (out_word, pen, rest_word, st)
               = (out_word @ [hd rest_word], pen, tl rest_word,
                  LOG_warn (U ''Unexpected character '' @ [34] @ [hd rest_word] @ [34]
                            @ U '' encountered while converting '' @ langcode @ U '' candidate ''
                            @ [34] @ w @ [34] @ U ''.'') st)))
   \<and> (\<exists>n \<le> length rest_word.
         convert_loop convdict maxkeylen langcode w (out_word, pen, rest_word, st)
           = ((convert_step convdict maxkeylen langcode w) ^^ n) (out_word, pen, rest_word, st)
         \<and> rest_of (convert_loop convdict maxkeylen langcode w (out_word, pen, rest_word, st)) = [])"
proof (intro conjI impI)
  assume ne: "rest_word \<noteq> []"
  obtain out_word' pen' rest_word' st' where
    s: "convert_step convdict maxkeylen langcode w (out_word, pen, rest_word, st)
          = (out_word', pen', rest_word', st')"
    by (cases "convert_step convdict maxkeylen langcode w (out_word, pen, rest_word, st)")
  from convert_step_progress [OF ne s]
  show "length (rest_of (convert_step convdict maxkeylen langcode w (out_word, pen, rest_word, st)))
        < length rest_word"
    by (simp add: s rest_of_def)
next
  assume ne: "rest_word \<noteq> []"
    and "longest_match convdict rest_word (nat (min maxkeylen (int (length rest_word)))) = None"
  then show "convert_step convdict maxkeylen langcode w (out_word, pen, rest_word, st)
               = (out_word @ [hd rest_word], pen, tl rest_word,
                  LOG_warn (U ''Unexpected character '' @ [34] @ [hd rest_word] @ [34]
                            @ U '' encountered while converting '' @ langcode @ U '' candidate ''
                            @ [34] @ w @ [34] @ U ''.'') st)"
    by (cases rest_word) (simp_all add: convert_step_def)
next
  from convert_loop_iterates [of "(out_word, pen, rest_word, st)" convdict maxkeylen langcode w]
  show "\<exists>n \<le> length rest_word.
         convert_loop convdict maxkeylen langcode w (out_word, pen, rest_word, st)
           = ((convert_step convdict maxkeylen langcode w) ^^ n) (out_word, pen, rest_word, st)
         \<and> rest_of (convert_loop convdict maxkeylen langcode w (out_word, pen, rest_word, st)) = []"
    by (simp add: rest_of_def)
qed

definition demo_convdict :: "ustr \<rightharpoonup> conversion" where
  "demo_convdict = map_of
     [(U ''a'', \<lparr>conv_output = U ''a'', conv_penalty = False\<rparr>),
      (U ''sh'', \<lparr>conv_output = U ''S'', conv_penalty = False\<rparr>)]"

theorem convert_loop_terminates_witness:
  "convert_step demo_convdict 2 (U ''en'') (U ''a?'') (U ''a'', 0, U ''?'', demo_store)
     = (U ''a?'', 0, [],
        LOG_warn (U ''Unexpected character '' @ [34] @ U ''?'' @ [34]
                  @ U '' encountered while converting en candidate '' @ [34] @ U ''a?'' @ [34]
                  @ U ''.'') demo_store)
   \<and> rest_of (convert_loop demo_convdict 2 (U ''en'') (U ''a?'') (U ''a'', 0, U ''?'', demo_store)) = []"
proof -
  have ne: "U ''?'' \<noteq> []" by simp
  have nomatch: "longest_match demo_convdict (U ''?'') (nat (min 2 (int (length (U ''?''))))) = None"
    by (simp add: demo_convdict_def)
  from convert_loop_terminates [of "U ''?''" demo_convdict 2 "U ''en''" "U ''a?''" "U ''a''" 0 demo_store]
    ne nomatch
  show ?thesis by auto
qed







section \<open>Building the candidates of a language (buildvoc.py, build\_candidates\_for\_lang)\<close>

text \<open>
  \<open>util.split_on_sep\<close>: the parts between separators, with optional whitespace around the
  separator; parts are merged again where a separator stands within parentheses.
  \<open>merged_result[-1]\<close> raises \<open>IndexError\<close> on an empty list.
\<close>

fun merge_parts :: "ustr \<Rightarrow> bool \<Rightarrow> ustr list \<Rightarrow> ustr list \<Rightarrow> py_error + ustr list" where
  "merge_parts sep wait_for_end merged_result [] = Inr merged_result"
| "merge_parts sep wait_for_end merged_result (elem # rest) =
     (if wait_for_end
      then (if merged_result = [] then Inl IndexError
            else merge_parts sep
                   (\<not> (contains elem (U '')'') \<and> \<not> contains elem (U ''('')))
                   (butlast merged_result @ [last merged_result @ sep @ elem]) rest)
      else merge_parts sep (contains elem (U ''('') \<and> \<not> contains elem (U '')''))
             (merged_result @ [elem]) rest)"

definition split_on_sep :: "unicode_db \<Rightarrow> ustr \<Rightarrow> ustr \<Rightarrow> py_error + ustr list" where
  "split_on_sep u text sep =
     (if text = [] then Inr []
      else
        let text = strip text;
            actual_sep = strip sep;
            sep_in_parens = Cat [Lit (U ''(''), Star (NotIn (U '')'')), Lit actual_sep,
                                 Star (NotIn (U '')'')), Lit (U '')'')];
            need_to_handle_parens = re_search u sep_in_parens text;
            result = re_split u (Cat [Star Space, Lit actual_sep, Star Space]) text
        in if need_to_handle_parens then merge_parts sep False [] result else Inr result)"

definition split_on_commas :: "unicode_db \<Rightarrow> ustr \<Rightarrow> py_error + ustr list" where
  "split_on_commas u text = split_on_sep u text (U '', '')"

definition split_on_semicolons :: "unicode_db \<Rightarrow> ustr \<Rightarrow> py_error + ustr list" where
  "split_on_semicolons u text = split_on_sep u text (U ''; '')"

text \<open>\<open>util.extract_text_in_brackets\<close>.\<close>

definition extract_text_in_brackets :: "ustr \<Rightarrow> bool \<Rightarrow> ustr option" where
  "extract_text_in_brackets text otherwise_return_fully =
     (let start = find text (U ''[''); end_idx = find text (U '']'')
      in if start \<noteq> - 1 \<and> end_idx > start
         then Some (take (nat end_idx - (nat start + 1)) (drop (nat start + 1) text))
         else if otherwise_return_fully then Some text else None)"

text \<open>\<open>_schwastrip\<close>: a filler vowel at the start and at the end of the word is removed.\<close>

definition schwastrip :: "candidate \<Rightarrow> candidate" where
  "schwastrip c =
     (let c = (if startswith (word c) [schwa] then c\<lparr>word := drop 1 (word c)\<rparr> else c)
      in if endswith (word c) [schwa] then c\<lparr>word := butlast (word c)\<rparr> else c)"

text \<open>
  The body of \<open>for cand_word in raw_cand_words\<close>. The loop carries the builder (for its
  cache), the store, \<open>cand_word_set\<close> and \<open>cands\<close>; an exception ends it. The candidate
  that \<open>mk_candidate\<close> returns is repaired and possibly stripped in place, so the cache and
  the candidate lists see the change. \<open>truthy\<close> is the truth value of an optional string.
\<close>

definition truthy :: "ustr option \<Rightarrow> bool" where
  "truthy x = (case x of None \<Rightarrow> False | Some s \<Rightarrow> s \<noteq> [])"

type_synonym build_state = "vocbuilder \<times> store \<times> ustr list \<times> ref list"

definition add_candidate ::
  "unicode_db \<Rightarrow> ustr \<Rightarrow> ref \<Rightarrow> build_state \<Rightarrow> py_error + build_state" where
  "add_candidate u langcode candidate s =
     (case s of (self, st, cand_word_set, cands) \<Rightarrow>
        (case insert_filler_vowels u (heap st candidate) of
           Inl e \<Rightarrow> Inl e
         | Inr c \<Rightarrow>
             let st = st\<lparr>heap := (heap st)(candidate := c)\<rparr> in
             case validate u (heap st candidate) st of (val_err, st) \<Rightarrow>
             let st = (if truthy val_err
                       then LOG_warn (langcode @ U '' candidate '' @ [34] @ word (heap st candidate)
                                      @ [34] @ U '' failed validation: ''
                                      @ (case val_err of None \<Rightarrow> [] | Some m \<Rightarrow> m)) st
                       else st);
                 st = (if args_schwastrip self
                       then st\<lparr>heap := (heap st)(candidate := schwastrip (heap st candidate))\<rparr>
                       else st)
             in if \<not> (truthy val_err \<or> word (heap st candidate) \<in> set cand_word_set)
                then Inr (self, st, word (heap st candidate) # cand_word_set, cands @ [candidate])
                else Inr (self, st, cand_word_set, cands)))"

fun build_loop ::
  "unicode_db \<Rightarrow> (ustr \<Rightarrow> ustr \<Rightarrow> ustr \<Rightarrow> py_error + ustr)
   \<Rightarrow> (ustr \<Rightarrow> ustr \<Rightarrow> ustr \<Rightarrow> ustr \<Rightarrow> py_error + ustr)
   \<Rightarrow> ustr \<Rightarrow> ustr \<Rightarrow> ustr \<Rightarrow> ustr list \<Rightarrow> build_state
   \<Rightarrow> (py_error + ref list) \<times> vocbuilder \<times> store" where
  "build_loop u pre post langcode conv_dict_name cls [] (self, st, cand_word_set, cands) =
     (Inr cands, self, st)"
| "build_loop u pre post langcode conv_dict_name cls (cand_word # rest)
       (self, st, cand_word_set, cands) =
     (case extract_text_in_brackets cand_word (langcode \<noteq> U ''en'') of
        None \<Rightarrow> build_loop u pre post langcode conv_dict_name cls rest
                  (self, st, cand_word_set, cands)
      | Some raw_cand_word \<Rightarrow>
          if raw_cand_word = []
          then build_loop u pre post langcode conv_dict_name cls rest
                 (self, st, cand_word_set, cands)
          else
            (case (if raw_cand_word \<noteq> cand_word \<and> contains cand_word (U ''['')
                   then (case split_on_commas u raw_cand_word of
                           Inl e \<Rightarrow> Inl e
                         | Inr [] \<Rightarrow> Inl IndexError
                         | Inr (first # _) \<Rightarrow>
                             Inr (first,
                                  Some (strip (take (nat (find cand_word (U ''[''))) cand_word))))
                   else Inr (raw_cand_word, None)) of
               Inl e \<Rightarrow> (Inl e, self, st)
             | Inr (raw_cand_word, true_orig) \<Rightarrow>
                 (case mk_candidate u pre post self st raw_cand_word langcode conv_dict_name cls
                         true_orig of
                    (Inl e, self, st) \<Rightarrow> (Inl e, self, st)
                  | (Inr None, self, st) \<Rightarrow>
                      build_loop u pre post langcode conv_dict_name cls rest
                        (self, st, cand_word_set, cands)
                  | (Inr (Some candidate), self, st) \<Rightarrow>
                      (case add_candidate u langcode candidate (self, st, cand_word_set, cands) of
                         Inl e \<Rightarrow> (Inl e, self, st)
                       | Inr s \<Rightarrow> build_loop u pre post langcode conv_dict_name cls rest s))))"

definition entry_get :: "(ustr \<rightharpoonup> ustr) \<Rightarrow> ustr \<Rightarrow> ustr \<Rightarrow> ustr" where
  "entry_get entry key dflt = (case entry key of None \<Rightarrow> dflt | Some v \<Rightarrow> v)"

definition build_candidates_for_lang ::
  "unicode_db \<Rightarrow> (ustr \<Rightarrow> ustr \<Rightarrow> ustr \<Rightarrow> py_error + ustr)
   \<Rightarrow> (ustr \<Rightarrow> ustr \<Rightarrow> ustr \<Rightarrow> ustr \<Rightarrow> py_error + ustr)
   \<Rightarrow> vocbuilder \<Rightarrow> store \<Rightarrow> ustr \<Rightarrow> ustr \<Rightarrow> (ustr \<rightharpoonup> ustr)
   \<Rightarrow> (py_error + ref list) \<times> vocbuilder \<times> store" where
  "build_candidates_for_lang u pre post self st langcode conv_dict_name entry =
     (let raw_cand = entry_get entry langcode [];
          cls = entry_get entry (U ''class'') []
      in if raw_cand \<noteq> []
         then (case split_on_semicolons u raw_cand of
                 Inl e \<Rightarrow> (Inl e, self, st)
               | Inr raw_cand_words \<Rightarrow>
                   build_loop u pre post langcode conv_dict_name cls raw_cand_words
                     (self, st, [], []))
         else (Inr [], self, st))"

definition demo_pre :: "ustr \<Rightarrow> ustr \<Rightarrow> ustr \<Rightarrow> py_error + ustr" where
  "demo_pre w conv_dict_name cls = Inr w"

definition demo_post :: "ustr \<Rightarrow> ustr \<Rightarrow> ustr \<Rightarrow> ustr \<Rightarrow> py_error + ustr" where
  "demo_post out_word w conv_dict_name cls = Inr out_word"

definition demo_entry :: "ustr \<rightharpoonup> ustr" where
  "demo_entry = map_of [(U ''xx'', U ''q; ka''), (U ''class'', U ''noun'')]"


section \<open>Properties of the candidate building\<close>

definition cache_wf :: "vocbuilder \<Rightarrow> store \<Rightarrow> bool" where
  "cache_wf self st = (\<forall>k r. candi_cache self k = Some (Some r) \<longrightarrow> r < next_ref st)"

definition validated :: "unicode_db \<Rightarrow> store \<Rightarrow> ref list \<Rightarrow> bool" where
  "validated u st cands =
     (\<forall>r \<in> set cands. r < next_ref st \<and> filled (heap st r)
                       \<and> fst (validate u (heap st r) st) = None)"

lemma validate_fst: "fst (validate u c st) = fst (validate u c st')"
  by (simp add: validate_def Let_def)

lemma validate_store:
  "heap (snd (validate u c st)) = heap st" "next_ref (snd (validate u c st)) = next_ref st"
  by (simp_all add: validate_def Let_def LOG_warn_def LOG_info_def)

lemma convert_step_store:
  "convert_step convdict maxkeylen langcode w (out_word, pen, rest_word, st)
     = (out_word', pen', rest_word', st')
   \<Longrightarrow> heap st' = heap st \<and> next_ref st' = next_ref st"
  by (auto simp: convert_step_def LOG_warn_def LOG_info_def split: option.splits)

lemma convert_loop_store:
  "convert_loop convdict maxkeylen langcode w (out_word, pen, rest_word, st)
     = (out_word', pen', rest_word', st')
   \<Longrightarrow> heap st' = heap st \<and> next_ref st' = next_ref st"
proof (induction convdict maxkeylen langcode w "(out_word, pen, rest_word, st)"
    arbitrary: out_word pen rest_word st rule: convert_loop.induct)
  case (1 convdict maxkeylen langcode w out_word pen rest_word st)
  show ?case
  proof (cases "rest_word = []")
    case True
    with "1.prems" show ?thesis by (simp add: convert_loop.simps)
  next
    case False
    obtain o1 p1 r1 s1 where
      step: "convert_step convdict maxkeylen langcode w (out_word, pen, rest_word, st) = (o1, p1, r1, s1)"
      by (cases "convert_step convdict maxkeylen langcode w (out_word, pen, rest_word, st)")
    from "1.prems" False step
    have "convert_loop convdict maxkeylen langcode w (o1, p1, r1, s1)
            = (out_word', pen', rest_word', st')"
      by (simp add: convert_loop.simps [of _ _ _ _ out_word])
    from "1.hyps" [OF False step this] convert_step_store [OF step]
    show ?thesis by simp
  qed
qed

lemma mk_candidate_store:
  assumes "mk_candidate u pre post self st w langcode conv_dict_name cls true_orig = (res, self', st')"
  shows "args_schwastrip self' = args_schwastrip self"
    and "next_ref st \<le> next_ref st'"
    and "\<forall>q < next_ref st. heap st' q = heap st q"
    and "cache_wf self st \<Longrightarrow> cache_wf self' st'"
    and "cache_wf self st \<Longrightarrow> res = Inr (Some r) \<Longrightarrow> r < next_ref st'"
proof -
  consider (hit) result where "candi_cache self (cache_key langcode w) = Some result"
      "res = Inr result" "self' = self" "st' = st"
    | (null) "res = Inr None" "st' = st"
      "self' = self\<lparr>candi_cache := (candi_cache self)(cache_key langcode w \<mapsto> None)\<rparr>"
    | (raise) e st1 where "res = Inl e" "self' = self"
      "heap st1 = heap st" "next_ref st1 = next_ref st" "st' = st1"
    | (new) c st1 where "res = Inr (Some (next_ref st1))"
      "heap st1 = heap st" "next_ref st1 = next_ref st"
      "st' = st1\<lparr>heap := (heap st1)(next_ref st1 := c), next_ref := Suc (next_ref st1)\<rparr>"
      "self' = self\<lparr>candi_cache := (candi_cache self)(cache_key langcode w \<mapsto> Some (next_ref st1))\<rparr>"
  proof (cases "candi_cache self (cache_key langcode w)")
    case (Some result)
    with assms have "res = Inr result" "self' = self" "st' = st"
      by (simp_all add: mk_candidate_def)
    with Some show ?thesis by (rule hit)
  next
    case None
    note miss = None
    show ?thesis
    proof (cases "strip_comment w \<noteq> [] \<and> has_latin_letter u (strip_comment w)")
      case False
      with assms miss have "res = Inr None" "st' = st"
        "self' = self\<lparr>candi_cache := (candi_cache self)(cache_key langcode w \<mapsto> None)\<rparr>"
        by (auto simp: mk_candidate_def Let_def)
      then show ?thesis by (rule null)
    next
      case True
      show ?thesis
      proof (cases "convdicts self conv_dict_name")
        case None
        with assms miss True have "res = Inr (Some (next_ref st))"
          "st' = st\<lparr>heap := (heap st)(next_ref st := Candidate (lower u (strip_comment w)) 0 langcode
                   (strip_comment w) true_orig (vb_auxlangs self)), next_ref := Suc (next_ref st)\<rparr>"
          "self' = self\<lparr>candi_cache := (candi_cache self)(cache_key langcode w \<mapsto> Some (next_ref st))\<rparr>"
          by (auto simp: mk_candidate_def Let_def new_object_def)
        then show ?thesis using new [of st] by blast
      next
        case (Some convdict)
        note cd = Some
        show ?thesis
        proof (cases "pre (strip_comment w) conv_dict_name cls")
          case (Inl e)
          with assms miss True cd have "res = Inl e" "self' = self" "st' = st"
            by (auto simp: mk_candidate_def Let_def)
          then show ?thesis using raise [of e st] by blast
        next
          case (Inr w1)
          note pw = Inr
          show ?thesis
          proof (cases "maxkeylengths self conv_dict_name")
            case None
            with assms miss True cd pw have "res = Inl KeyError" "self' = self" "st' = st"
              by (auto simp: mk_candidate_def Let_def)
            then show ?thesis using raise [of KeyError st] by blast
          next
            case (Some maxkeylen)
            obtain o1 p1 r1 st1 where
              loop: "convert_loop convdict maxkeylen langcode w1 ([], 0, w1, st) = (o1, p1, r1, st1)"
              by (cases "convert_loop convdict maxkeylen langcode w1 ([], 0, w1, st)")
            from convert_loop_store [OF loop]
            have st1: "heap st1 = heap st" "next_ref st1 = next_ref st" by simp_all
            show ?thesis
            proof (cases "post o1 w1 conv_dict_name cls")
              case (Inl e)
              with assms miss True cd pw Some loop have "res = Inl e" "self' = self" "st' = st1"
                by (auto simp: mk_candidate_def Let_def)
              then show ?thesis using raise [of e st1] st1 by blast
            next
              case (Inr o2)
              with assms miss True cd pw Some loop have "res = Inr (Some (next_ref st1))"
                "st' = st1\<lparr>heap := (heap st1)(next_ref st1 := Candidate o2 p1 langcode
                   (strip_comment w) true_orig (vb_auxlangs self)), next_ref := Suc (next_ref st1)\<rparr>"
                "self' = self\<lparr>candi_cache := (candi_cache self)(cache_key langcode w \<mapsto> Some (next_ref st1))\<rparr>"
                by (auto simp: mk_candidate_def Let_def new_object_def)
              then show ?thesis using new [of st1] st1 by blast
            qed
          qed
        qed
      qed
    qed
  qed
  then show "args_schwastrip self' = args_schwastrip self"
    and "next_ref st \<le> next_ref st'"
    and "\<forall>q < next_ref st. heap st' q = heap st q"
    and "cache_wf self st \<Longrightarrow> cache_wf self' st'"
    and "cache_wf self st \<Longrightarrow> res = Inr (Some r) \<Longrightarrow> r < next_ref st'"
    by (cases; auto simp: cache_wf_def less_Suc_eq split: if_splits; fail)+
qed

lemma validate_parts_nonempty: "validate_parts w last_idx ps = Some m \<Longrightarrow> m \<noteq> []"
  by (induction w last_idx ps rule: validate_parts.induct) (auto simp: Let_def split: if_splits)

lemma validate_words_nonempty: "validate_words u ws = Some m \<Longrightarrow> m \<noteq> []"
  by (induction ws) (auto simp: Let_def split: option.splits dest: validate_parts_nonempty)

lemma validate_nonempty: "validate u c st = (Some m, st') \<Longrightarrow> m \<noteq> []"
  by (auto simp: validate_def Let_def split: if_splits dest: validate_words_nonempty)

lemma add_candidate_validated:
  assumes "add_candidate u langcode r (self, st, cand_word_set, cands)
             = Inr (self', st', cand_word_set', cands')"
    and "\<not> args_schwastrip self" and "r < next_ref st" and "validated u st cands"
  shows "self' = self \<and> next_ref st' = next_ref st \<and> validated u st' cands'"
proof -
  obtain c where c: "insert_filler_vowels u (heap st r) = Inr c"
    using insert_filler_vowels_returns by blast
  have fc: "filled c" using c by (rule insert_filler_vowels_filled)
  let ?st1 = "st\<lparr>heap := (heap st)(r := c)\<rparr>"
  have same: "heap ?st1 q = heap st q" if "q \<in> set cands" for q
  proof (cases "q = r")
    case True
    with that assms(4) have "filled (heap st r)" by (simp add: validated_def)
    with c have "c = heap st r" by (simp add: insert_filler_vowels_def)
    with True show ?thesis by simp
  next
    case False
    then show ?thesis by simp
  qed
  obtain val_err st2 where v: "validate u c ?st1 = (val_err, st2)" by (cases "validate u c ?st1")
  have st2: "heap st2 = heap ?st1" "next_ref st2 = next_ref st"
    using validate_store [of u c ?st1] v by simp_all
  define st3 where "st3 = (if truthy val_err
                       then LOG_warn (langcode @ U '' candidate '' @ [34] @ word (heap st2 r)
                                      @ [34] @ U '' failed validation: ''
                                      @ (case val_err of None \<Rightarrow> [] | Some m \<Rightarrow> m)) st2
                       else st2)"
  have st3: "heap st3 = heap ?st1" "next_ref st3 = next_ref st"
    using st2 by (simp_all add: st3_def LOG_warn_def LOG_info_def)
  have res: "(self', st', cand_word_set', cands')
      = (if \<not> (truthy val_err \<or> word (heap st3 r) \<in> set cand_word_set)
         then (self, st3, word (heap st3 r) # cand_word_set, cands @ [r])
         else (self, st3, cand_word_set, cands))"
    using assms(1,2) c v unfolding add_candidate_def st3_def
    by (auto simp: Let_def split: if_splits)
  have old: "validated u st3 cands"
    unfolding validated_def
  proof
    fix q assume q: "q \<in> set cands"
    with assms(4) have "q < next_ref st" "filled (heap st q)" "fst (validate u (heap st q) st) = None"
      by (simp_all add: validated_def)
    then show "q < next_ref st3 \<and> filled (heap st3 q) \<and> fst (validate u (heap st3 q) st3) = None"
      using same [OF q] st3 validate_fst [of u "heap st q" st3 st] by simp
  qed
  show ?thesis
  proof (cases "\<not> (truthy val_err \<or> word (heap st3 r) \<in> set cand_word_set)")
    case False
    with res have "self' = self \<and> st' = st3 \<and> cands' = cands" by (auto split: if_splits)
    with old st3 show ?thesis by simp
  next
    case True
    with res have eq: "self' = self \<and> st' = st3 \<and> cands' = cands @ [r]"
      by (auto split: if_splits)
    from True have "val_err = None \<or> val_err = Some []"
      by (cases val_err) (auto simp: truthy_def)
    moreover have "val_err \<noteq> Some []"
      using v validate_nonempty [of u c ?st1 "[]" st2] by auto
    ultimately have "val_err = None" by simp
    with v have "fst (validate u c st3) = None"
      using validate_fst [of u c st3 ?st1] by simp
    with assms(3) fc st3 have "validated u st3 [r]" by (simp add: validated_def)
    with old have "validated u st3 (cands @ [r])" by (auto simp: validated_def)
    with eq st3 show ?thesis by simp
  qed
qed


lemma build_loop_validated:
  assumes "build_loop u pre post langcode conv_dict_name cls ws (self, st, cand_word_set, cands)
             = (Inr out, self', st')"
    and "\<not> args_schwastrip self" and "cache_wf self st" and "validated u st cands"
  shows "validated u st' out"
  using assms
proof (induction ws arbitrary: self st cand_word_set cands)
  case Nil
  then show ?case by simp
next
  case (Cons cand_word rest)
  show ?case
  proof (cases "extract_text_in_brackets cand_word (langcode \<noteq> U ''en'')")
    case None
    with Cons.prems(1) have "build_loop u pre post langcode conv_dict_name cls rest
        (self, st, cand_word_set, cands) = (Inr out, self', st')" by simp
    from Cons.IH [OF this Cons.prems(2-4)] show ?thesis .
  next
    case (Some raw)
    note ex = Some
    show ?thesis
    proof (cases "raw = []")
      case True
      with Cons.prems(1) ex have "build_loop u pre post langcode conv_dict_name cls rest
          (self, st, cand_word_set, cands) = (Inr out, self', st')" by simp
      from Cons.IH [OF this Cons.prems(2-4)] show ?thesis .
    next
      case False
      define arg where "arg = (if raw \<noteq> cand_word \<and> contains cand_word (U ''['')
                   then (case split_on_commas u raw of
                           Inl e \<Rightarrow> Inl e
                         | Inr [] \<Rightarrow> Inl IndexError
                         | Inr (first # _) \<Rightarrow>
                             Inr (first,
                                  Some (strip (take (nat (find cand_word (U ''[''))) cand_word))))
                   else Inr (raw, None))"
      have unf: "build_loop u pre post langcode conv_dict_name cls (cand_word # rest)
            (self, st, cand_word_set, cands) =
          (case arg of
               Inl e \<Rightarrow> (Inl e, self, st)
             | Inr (raw_cand_word, true_orig) \<Rightarrow>
                 (case mk_candidate u pre post self st raw_cand_word langcode conv_dict_name cls
                         true_orig of
                    (Inl e, self, st) \<Rightarrow> (Inl e, self, st)
                  | (Inr None, self, st) \<Rightarrow>
                      build_loop u pre post langcode conv_dict_name cls rest
                        (self, st, cand_word_set, cands)
                  | (Inr (Some candidate), self, st) \<Rightarrow>
                      (case add_candidate u langcode candidate (self, st, cand_word_set, cands) of
                         Inl e \<Rightarrow> (Inl e, self, st)
                       | Inr s \<Rightarrow> build_loop u pre post langcode conv_dict_name cls rest s)))"
        using ex False unfolding arg_def by simp
      show ?thesis
      proof (cases arg)
        case (Inl e)
        with Cons.prems(1) unf show ?thesis by simp
      next
        case (Inr p)
        obtain raw_cand_word true_orig where p: "p = (raw_cand_word, true_orig)" by (cases p)
        obtain res self1 st1 where mk: "mk_candidate u pre post self st raw_cand_word langcode
            conv_dict_name cls true_orig = (res, self1, st1)"
          by (cases "mk_candidate u pre post self st raw_cand_word langcode conv_dict_name cls true_orig")
        note ms = mk_candidate_store [OF mk]
        have a1: "\<not> args_schwastrip self1" using ms(1) Cons.prems(2) by simp
        have w1: "cache_wf self1 st1" using ms(4) Cons.prems(3) by simp
        have v1: "validated u st1 cands"
          unfolding validated_def
        proof
          fix q assume "q \<in> set cands"
          with Cons.prems(4) have q: "q < next_ref st" "filled (heap st q)"
            "fst (validate u (heap st q) st) = None" by (simp_all add: validated_def)
          with ms(2,3) validate_fst [of u "heap st q" st1 st]
          show "q < next_ref st1 \<and> filled (heap st1 q) \<and> fst (validate u (heap st1 q) st1) = None"
            by simp
        qed
        show ?thesis
        proof (cases res)
          case (Inl e)
          with Cons.prems(1) unf Inr p mk show ?thesis by simp
        next
          case (Inr ro)
          note res = Inr
          show ?thesis
          proof (cases ro)
            case None
            with Cons.prems(1) unf \<open>arg = Inr p\<close> p mk res
            have "build_loop u pre post langcode conv_dict_name cls rest
                (self1, st1, cand_word_set, cands) = (Inr out, self', st')" by simp
            from Cons.IH [OF this a1 w1 v1] show ?thesis .
          next
            case (Some r)
            have r: "r < next_ref st1" using ms(5) [of r] Cons.prems(3) res Some by simp
            show ?thesis
            proof (cases "add_candidate u langcode r (self1, st1, cand_word_set, cands)")
              case (Inl e)
              with Cons.prems(1) unf \<open>arg = Inr p\<close> p mk res Some show ?thesis by simp
            next
              case (Inr s2)
              obtain self2 st2 cws2 cands2 where s2: "s2 = (self2, st2, cws2, cands2)" by (cases s2)
              from add_candidate_validated [OF Inr [unfolded s2] a1 r v1]
              have k: "self2 = self1" "next_ref st2 = next_ref st1" "validated u st2 cands2"
                by simp_all
              have w2: "cache_wf self2 st2" using w1 k by (simp add: cache_wf_def)
              from Cons.prems(1) unf \<open>arg = Inr p\<close> p mk res Some Inr s2
              have "build_loop u pre post langcode conv_dict_name cls rest
                  (self2, st2, cws2, cands2) = (Inr out, self', st')" by simp
              from Cons.IH [OF this _ w2 k(3)] a1 k(1) show ?thesis by simp
            qed
          qed
        qed
      qed
    qed
  qed
qed

text \<open>
  C1. The repair can leave a word that the validator rejects: a candidate whose word has a
  letter outside the internal alphabet, such as the pass-through candidate \<open>q\<close> of a language
  without conversion table, is returned unchanged by \<open>insert_filler_vowels\<close> and fails
  \<open>validate\<close>. \<open>build_candidates_for_lang\<close> validates every repaired candidate and, unless
  \<open>--schwastrip\<close> changes the words afterwards, returns only candidates that have been
  repaired and for which \<open>validate\<close> returns \<open>None\<close>.
\<close>

theorem repair_validate_counterexample:
  "fst (mk_candidate ascii_db demo_pre demo_post demo_builder demo_store
          (U ''q'') (U ''xx'') (U ''xx'') (U ''noun'') None) = Inr (Some 3)
   \<and> heap (snd (snd (mk_candidate ascii_db demo_pre demo_post demo_builder demo_store
                       (U ''q'') (U ''xx'') (U ''xx'') (U ''noun'') None))) 3
       = Candidate (U ''q'') 0 (U ''xx'') (U ''q'') None []
   \<and> insert_filler_vowels ascii_db (Candidate (U ''q'') 0 (U ''xx'') (U ''q'') None [])
       = Inr ((Candidate (U ''q'') 0 (U ''xx'') (U ''q'') None [])\<lparr>filled := True\<rparr>)
   \<and> fst (validate ascii_db ((Candidate (U ''q'') 0 (U ''xx'') (U ''q'') None [])\<lparr>filled := True\<rparr>)
            demo_store)
       = Some (U ''xx candidate contains unexpected characters: q (q)'')"
  by code_simp

theorem build_candidates_validated:
  assumes "build_candidates_for_lang u pre post self st langcode conv_dict_name entry
             = (Inr cands, self', st')"
    and "\<not> args_schwastrip self" and "cache_wf self st"
  shows "\<forall>r \<in> set cands. filled (heap st' r) \<and> fst (validate u (heap st' r) st') = None"
proof (cases "entry_get entry langcode [] \<noteq> []")
  case False
  with assms(1) show ?thesis by (simp add: build_candidates_for_lang_def Let_def)
next
  case True
  show ?thesis
  proof (cases "split_on_semicolons u (entry_get entry langcode [])")
    case (Inl e)
    with assms(1) True show ?thesis by (simp add: build_candidates_for_lang_def Let_def)
  next
    case (Inr ws)
    with assms(1) True have "build_loop u pre post langcode conv_dict_name
        (entry_get entry (U ''class'') []) ws (self, st, [], []) = (Inr cands, self', st')"
      by (simp add: build_candidates_for_lang_def Let_def)
    from build_loop_validated [OF this assms(2,3)] show ?thesis
      by (simp add: validated_def)
  qed
qed


theorem build_candidates_validated_witness:
  "fst (build_candidates_for_lang ascii_db demo_pre demo_post demo_builder demo_store
          (U ''xx'') (U ''xx'') demo_entry) = Inr [4]
   \<and> fst (validate ascii_db
            (heap (snd (snd (build_candidates_for_lang ascii_db demo_pre demo_post demo_builder
                               demo_store (U ''xx'') (U ''xx'') demo_entry))) 4)
            (snd (snd (build_candidates_for_lang ascii_db demo_pre demo_post demo_builder
                               demo_store (U ''xx'') (U ''xx'') demo_entry)))) = None"
proof -
  let ?b = "build_candidates_for_lang ascii_db demo_pre demo_post demo_builder demo_store
              (U ''xx'') (U ''xx'') demo_entry"
  have e: "fst ?b = Inr [4]" by code_simp
  then have b: "?b = (Inr [4], fst (snd ?b), snd (snd ?b))"
    by (metis prod.collapse)
  have s: "\<not> args_schwastrip demo_builder" by (simp add: demo_builder_def)
  have c: "cache_wf demo_builder demo_store" by (simp add: cache_wf_def demo_builder_def)
  from build_candidates_validated [OF b s c] e show ?thesis by simp
qed


section \<open>Ranking (buildutil.py and buildvoc.py, print\_cands)\<close>




definition count_vowels_internal :: "unicode_db \<Rightarrow> ustr \<Rightarrow> int" where
  "count_vowels_internal u w = int (length (filter (\<lambda>c. c \<in> set INTERNAL_VOWELS) (lower u w)))"

definition syllables :: "unicode_db \<Rightarrow> candidate \<Rightarrow> rat" where
  "syllables u self =
     (let cnt = count_vowels_internal u (word self)
      in if cnt \<noteq> 0 \<and> word self \<noteq> [] \<and> hd (word self) \<in> set INTERNAL_VOWELS
            \<and> last (word self) \<in> set INTERNAL_VOWELS
         then of_int cnt - 1 / 2 else of_int cnt)"


















section \<open>Properties of the ranking\<close>












end
